theory Spec2Isabelle
  imports Complex_Main "HOL-Library.Sublist"
begin

section \<open>Python strings\<close>

text \<open>
  A Python \<open>str\<close> is modelled as a \<open>string\<close> of ASCII characters. The character
  classes below are those of \<open>str.isspace\<close>, of the regular-expression classes
  \<open>\s\<close> and \<open>\w\<close>, and of \<open>str.lower\<close> on the ASCII range; text outside ASCII is
  outside this model.
\<close>

definition is_space :: "char \<Rightarrow> bool" where
  "is_space c \<longleftrightarrow>
     c \<in> set [CHR '' '', CHR 0x09, CHR 0x0A, CHR 0x0B, CHR 0x0C, CHR 0x0D,
               CHR 0x1C, CHR 0x1D, CHR 0x1E, CHR 0x1F]"

definition is_word :: "char \<Rightarrow> bool" where
  "is_word c \<longleftrightarrow>
     c \<in> set (''abcdefghijklmnopqrstuvwxyz'' @ ''ABCDEFGHIJKLMNOPQRSTUVWXYZ''
               @ ''0123456789'' @ ''_'')"

definition lower_char :: "char \<Rightarrow> char" where
  "lower_char c =
     (case map_of (zip ''ABCDEFGHIJKLMNOPQRSTUVWXYZ'' ''abcdefghijklmnopqrstuvwxyz'') c of
        Some d \<Rightarrow> d | None \<Rightarrow> c)"

definition upper_char :: "char \<Rightarrow> char" where
  "upper_char c =
     (case map_of (zip ''abcdefghijklmnopqrstuvwxyz'' ''ABCDEFGHIJKLMNOPQRSTUVWXYZ'') c of
        Some d \<Rightarrow> d | None \<Rightarrow> c)"

definition is_lower :: "char \<Rightarrow> bool" where
  "is_lower c \<longleftrightarrow> c \<in> set ''abcdefghijklmnopqrstuvwxyz''"

definition is_upper :: "char \<Rightarrow> bool" where
  "is_upper c \<longleftrightarrow> c \<in> set ''ABCDEFGHIJKLMNOPQRSTUVWXYZ''"

text \<open>\<open>s.lower()\<close>\<close>

definition lower :: "string \<Rightarrow> string" where
  "lower s = map lower_char s"

text \<open>\<open>s.strip()\<close>: leading and trailing whitespace removed.\<close>

definition strip :: "string \<Rightarrow> string" where
  "strip s = rev (dropWhile is_space (rev (dropWhile is_space s)))"

text \<open>\<open>sub in s\<close> on strings: \<open>sub\<close> occurs in \<open>s\<close> as a contiguous substring.\<close>

fun str_in :: "string \<Rightarrow> string \<Rightarrow> bool" where
  "str_in sub [] = (sub = [])"
| "str_in sub (c # cs) = (prefix sub (c # cs) \<or> str_in sub cs)"

text \<open>\<open>s.split()\<close> with no argument: the maximal runs of non-whitespace characters.\<close>

function split_ws :: "string \<Rightarrow> string list" where
  "split_ws s =
     (let t = dropWhile is_space s
      in if t = [] then []
         else takeWhile (\<lambda>c. \<not> is_space c) t # split_ws (dropWhile (\<lambda>c. \<not> is_space c) t))"
  by pat_completeness auto
termination
proof (relation "measure length")
  show "wf (measure length)" by simp
next
  fix s t :: string
  assume t: "t = dropWhile is_space s" and ne: "t \<noteq> []"
  from ne obtain c cs where tc: "t = c # cs" by (cases t) auto
  have "\<not> is_space c"
    using t tc by (metis dropWhile_eq_Cons_conv)
  then have "dropWhile (\<lambda>c. \<not> is_space c) t = dropWhile (\<lambda>c. \<not> is_space c) cs"
    using tc by auto
  then have "length (dropWhile (\<lambda>c. \<not> is_space c) t) \<le> length cs"
    by (simp add: length_dropWhile_le)
  moreover have "length t \<le> length s"
    using t by (simp add: length_dropWhile_le)
  ultimately show "(dropWhile (\<lambda>c. \<not> is_space c) t, s) \<in> measure length"
    using tc by simp
qed

text \<open>\<open>" ".join(words)\<close>\<close>

fun join_sp :: "string list \<Rightarrow> string" where
  "join_sp [] = []"
| "join_sp [w] = w"
| "join_sp (w # ws) = w @ '' '' @ join_sp ws"

text \<open>\<open>str(n)\<close> for an integer: its decimal numeral.\<close>

definition digit_char :: "nat \<Rightarrow> char" where
  "digit_char d = ''0123456789'' ! (d mod 10)"

function str_nat :: "nat \<Rightarrow> string" where
  "str_nat n = (if n < 10 then [digit_char n] else str_nat (n div 10) @ [digit_char (n mod 10)])"
  by pat_completeness auto
termination
  by (relation "measure id") auto

definition str_int :: "int \<Rightarrow> string" where
  "str_int i = (if i < 0 then ''-'' @ str_nat (nat (- i)) else str_nat (nat i))"

section \<open>The chunker (rag/vector\_store.py, DocumentChunker)\<close>

datatype meta_value = MStr string | MInt int | MBool bool | MNone

type_synonym metadata_dict = "(string \<times> meta_value) list"

text \<open>
  A dictionary literal \<open>{**m, k: v}\<close> keeps the entries of \<open>m\<close> in their order, replaces
  the value of \<open>k\<close> where \<open>m\<close> has the key and appends the entry otherwise.
\<close>

fun dict_set :: "metadata_dict \<Rightarrow> string \<Rightarrow> meta_value \<Rightarrow> metadata_dict" where
  "dict_set [] k v = [(k, v)]"
| "dict_set ((k', v') # m) k v = (if k' = k then (k, v) # m else (k', v') # dict_set m k v)"

text \<open>The dataclass \<open>DocumentChunk\<close>; its field \<open>id\<close> is \<open>chunk_id\<close> here.\<close>

record DocumentChunk =
  chunk_id :: string
  content :: string
  metadata :: metadata_dict
  embedding :: "real list option"
  source_url :: "string option"
  page_number :: "int option"
  chunk_index :: "int option"

text \<open>The configuration of a \<open>DocumentChunker\<close> (\<open>__init__\<close>: 512 and 50 by default).\<close>

record DocumentChunker =
  chunk_size :: int
  overlap :: int

definition default_chunker :: DocumentChunker where
  "default_chunker = \<lparr>chunk_size = 512, overlap = 50\<rparr>"

text \<open>\<open>re.sub(r'\s+', ' ', text)\<close>: every maximal run of whitespace becomes one space.\<close>

function collapse_ws :: "string \<Rightarrow> string" where
  "collapse_ws [] = []"
| "collapse_ws (c # cs) =
     (if is_space c then CHR '' '' # collapse_ws (dropWhile is_space cs)
      else c # collapse_ws cs)"
  by pat_completeness auto
termination
  by (relation "measure length") (auto simp: length_dropWhile_le less_Suc_eq_le)

text \<open>The characters \<open>re.sub(r'[^\w\s.,!?;:()\-]', '', text)\<close> keeps.\<close>

definition keep_char :: "char \<Rightarrow> bool" where
  "keep_char c \<longleftrightarrow> is_word c \<or> is_space c \<or> c \<in> set ''.,!?;:()-''"

definition clean_text :: "string \<Rightarrow> string" where
  "clean_text text = strip (filter keep_char (collapse_ws text))"

text \<open>
  \<open>re.split(r'[.!?]+', text)\<close>: the pieces between the maximal runs of the three
  punctuation marks, the empty pieces at either end included.
\<close>

definition is_stop :: "char \<Rightarrow> bool" where
  "is_stop c \<longleftrightarrow> c \<in> set ''.!?''"

function re_split_stops :: "string \<Rightarrow> string list" where
  "re_split_stops s =
     (let piece = takeWhile (\<lambda>c. \<not> is_stop c) s;
          rest = dropWhile (\<lambda>c. \<not> is_stop c) s
      in if rest = [] then [piece]
         else piece # re_split_stops (dropWhile is_stop rest))"
  by pat_completeness auto
termination
proof (relation "measure length")
  show "wf (measure length)" by simp
next
  fix s piece rest :: string
  assume r: "rest = dropWhile (\<lambda>c. \<not> is_stop c) s" and ne: "rest \<noteq> []"
  from ne obtain c cs where rc: "rest = c # cs" by (cases rest) auto
  have "is_stop c"
    using r rc by (metis dropWhile_eq_Cons_conv)
  then have "dropWhile is_stop rest = dropWhile is_stop cs"
    using rc by simp
  then have "length (dropWhile is_stop rest) \<le> length cs"
    by (simp add: length_dropWhile_le)
  moreover have "length rest \<le> length s"
    using r by (simp add: length_dropWhile_le)
  ultimately show "(dropWhile is_stop rest, s) \<in> measure length"
    using rc by simp
qed

definition split_into_sentences :: "string \<Rightarrow> string list" where
  "split_into_sentences text =
     map strip (filter (\<lambda>s. strip s \<noteq> []) (re_split_stops text))"

text \<open>
  \<open>get_overlap_text\<close>. The slice \<open>words[-n:]\<close> is written out for every integer \<open>n\<close>
  below the number of words: the last \<open>n\<close> words for a positive \<open>n\<close>, all the words for
  \<open>n = 0\<close> (\<open>-0\<close> is \<open>0\<close>), and the words from position \<open>-n\<close> on for a negative \<open>n\<close>.
\<close>

definition slice_last :: "string list \<Rightarrow> int \<Rightarrow> string list" where
  "slice_last words n =
     (if n > 0 then drop (length words - nat n) words else drop (nat (- n)) words)"

definition get_overlap_text :: "string \<Rightarrow> int \<Rightarrow> string" where
  "get_overlap_text text overlap_size =
     (let words = split_ws text
      in if int (length words) \<le> overlap_size then text
         else join_sp (slice_last words overlap_size))"

text \<open>
  \<open>generate_chunk_id\<close>. The digest \<open>hashlib.md5(text.encode()).hexdigest()\<close> is a
  parameter \<open>md5\<close> of the model.
\<close>

definition generate_chunk_id :: "(string \<Rightarrow> string) \<Rightarrow> string \<Rightarrow> int \<Rightarrow> string" where
  "generate_chunk_id md5 text idx = ''chunk_'' @ take 8 (md5 text) @ ''_'' @ str_int idx"

definition make_chunk ::
  "(string \<Rightarrow> string) \<Rightarrow> string \<Rightarrow> metadata_dict \<Rightarrow> string \<Rightarrow> int \<Rightarrow> DocumentChunk" where
  "make_chunk md5 text meta current_chunk idx =
     \<lparr>chunk_id = generate_chunk_id md5 text idx,
      content = strip current_chunk,
      metadata = dict_set meta ''chunk_index'' (MInt idx),
      embedding = None, source_url = None, page_number = None,
      chunk_index = Some idx\<rparr>"

text \<open>
  The loop of \<open>chunk_text\<close> over the sentences, with its three variables \<open>chunks\<close>,
  \<open>current_chunk\<close> and \<open>chunk_index\<close> as accumulators.
\<close>

fun chunk_loop ::
  "DocumentChunker \<Rightarrow> (string \<Rightarrow> string) \<Rightarrow> string \<Rightarrow> metadata_dict \<Rightarrow> string list \<Rightarrow>
   DocumentChunk list \<Rightarrow> string \<Rightarrow> int \<Rightarrow> DocumentChunk list \<times> string \<times> int" where
  "chunk_loop cfg md5 text meta [] chunks current_chunk idx = (chunks, current_chunk, idx)"
| "chunk_loop cfg md5 text meta (sentence # rest) chunks current_chunk idx =
     (if int (length current_chunk) + int (length sentence) > chunk_size cfg
         \<and> current_chunk \<noteq> []
      then chunk_loop cfg md5 text meta rest
             (chunks @ [make_chunk md5 text meta current_chunk idx])
             (get_overlap_text current_chunk (overlap cfg) @ '' '' @ sentence)
             (idx + 1)
      else chunk_loop cfg md5 text meta rest chunks
             (if current_chunk \<noteq> [] then current_chunk @ '' '' @ sentence else sentence)
             idx)"

definition chunk_text ::
  "DocumentChunker \<Rightarrow> (string \<Rightarrow> string) \<Rightarrow> string \<Rightarrow> metadata_dict \<Rightarrow> DocumentChunk list" where
  "chunk_text cfg md5 raw meta =
     (let text = clean_text raw;
          sentences = split_into_sentences text
      in case chunk_loop cfg md5 text meta sentences [] [] 0 of
           (chunks, current_chunk, idx) \<Rightarrow>
             if strip current_chunk \<noteq> []
             then chunks @ [make_chunk md5 text meta current_chunk idx]
             else chunks)"

declare split_ws.simps [simp del] str_nat.simps [simp del] re_split_stops.simps [simp del]

section \<open>Retrieval (rag/vector\_store.py, VectorStore.search and RAGPipeline)\<close>

text \<open>
  A raised Python exception, with the message it carries. Every \<open>except Exception\<close>
  handler of the code catches each of them.
\<close>

datatype exn = Exception string

text \<open>The dataclass \<open>SearchResult\<close>; a similarity score is a real number.\<close>

record SearchResult =
  chunk :: DocumentChunk
  similarity_score :: real
  rank :: int

text \<open>One element of \<open>search_response.matches\<close>, as the vector index answers a query.\<close>

record index_match =
  match_id :: string
  match_score :: real
  match_metadata :: metadata_dict

text \<open>
  The two external services of \<open>VectorStore\<close>: the embedding model
  (\<open>model.encode(text).tolist()\<close>) and the vector index
  (\<open>index.query(vector, top_k, include_metadata, filter).matches\<close>). Either call may
  raise.
\<close>

record vector_services =
  encode :: "string \<Rightarrow> exn + real list"
  index_query :: "real list \<Rightarrow> int \<Rightarrow> metadata_dict \<Rightarrow> exn + index_match list"

text \<open>\<open>EmbeddingGenerator.generate_embedding\<close>: the empty list when the model raises.\<close>

definition generate_embedding :: "vector_services \<Rightarrow> string \<Rightarrow> real list" where
  "generate_embedding svc text = (case encode svc text of Inl e \<Rightarrow> [] | Inr v \<Rightarrow> v)"

text \<open>
  The chunk \<open>search\<close> rebuilds from a match's metadata with \<open>metadata.get\<close>. A stored
  value that is not of the type the dataclass field declares is read as absent.
\<close>

definition get_str :: "metadata_dict \<Rightarrow> string \<Rightarrow> string option" where
  "get_str m k = (case map_of m k of Some (MStr s) \<Rightarrow> Some s | _ \<Rightarrow> None)"

definition get_int :: "metadata_dict \<Rightarrow> string \<Rightarrow> int option" where
  "get_int m k = (case map_of m k of Some (MInt i) \<Rightarrow> Some i | _ \<Rightarrow> None)"

definition chunk_of_match :: "index_match \<Rightarrow> DocumentChunk" where
  "chunk_of_match m =
     \<lparr>chunk_id = match_id m,
      content = (case get_str (match_metadata m) ''content'' of Some s \<Rightarrow> s | None \<Rightarrow> []),
      metadata = match_metadata m,
      embedding = None,
      source_url = get_str (match_metadata m) ''source_url'',
      page_number = get_int (match_metadata m) ''page_number'',
      chunk_index = get_int (match_metadata m) ''chunk_index''\<rparr>"

text \<open>\<open>VectorStore.search\<close>; its \<open>except\<close> branch returns the empty list.\<close>

definition search ::
  "vector_services \<Rightarrow> string \<Rightarrow> int \<Rightarrow> metadata_dict \<Rightarrow> SearchResult list" where
  "search svc query top_k filter_dict =
     (let query_embedding = generate_embedding svc query
      in if query_embedding = [] then []
         else (case index_query svc query_embedding top_k filter_dict of
                 Inl e \<Rightarrow> []
               | Inr matches \<Rightarrow>
                   map (\<lambda>(i, m). \<lparr>chunk = chunk_of_match m,
                                   similarity_score = match_score m,
                                   rank = int i + 1\<rparr>)
                       (enumerate 0 matches)))"

text \<open>
  \<open>RAGPipeline.retrieve_relevant_chunks\<close>. An argument that is \<open>None\<close> or the empty
  string is falsy and adds no entry to the filter. Nothing in the body can raise once
  \<open>search\<close> has returned, so the \<open>except\<close> branch has no case here.
\<close>

definition min_score :: real where
  "min_score = 0.7"

definition build_filter :: "string option \<Rightarrow> string option \<Rightarrow> metadata_dict" where
  "build_filter jurisdiction document_type =
     (case jurisdiction of
        Some j \<Rightarrow> if j \<noteq> [] then [(''jurisdiction'', MStr j)] else []
      | None \<Rightarrow> [])
     @ (case document_type of
          Some d \<Rightarrow> if d \<noteq> [] then [(''document_type'', MStr d)] else []
        | None \<Rightarrow> [])"

definition retrieve_relevant_chunks ::
  "vector_services \<Rightarrow> string \<Rightarrow> int \<Rightarrow> string option \<Rightarrow> string option \<Rightarrow> SearchResult list" where
  "retrieve_relevant_chunks svc query top_k jurisdiction document_type =
     (let filter_dict = build_filter jurisdiction document_type;
          results = search svc query top_k filter_dict
      in filter (\<lambda>r. similarity_score r \<ge> min_score) results)"

text \<open>A vector store with three stored chunks, used to run the retrieval on an input.\<close>

definition example_matches :: "index_match list" where
  "example_matches =
     [\<lparr>match_id = ''chunk_a_0'', match_score = 0.9, match_metadata = [(''content'', MStr ''llc'')]\<rparr>,
      \<lparr>match_id = ''chunk_a_1'', match_score = 0.5, match_metadata = []\<rparr>,
      \<lparr>match_id = ''chunk_b_0'', match_score = 0.7, match_metadata = []\<rparr>]"

definition example_services :: vector_services where
  "example_services =
     \<lparr>encode = (\<lambda>q. Inr [1]), index_query = (\<lambda>v k f. Inr (take (nat k) example_matches))\<rparr>"

section \<open>The crawler (crawler/legal\_crawler.py, LegalCrawler)\<close>

text \<open>
  The dataclass \<open>LegalSource\<close>; its fields \<open>content\<close> and \<open>metadata\<close> are
  \<open>source_content\<close> and \<open>source_metadata\<close> here, and \<open>last_crawled\<close> is a reading of the
  clock.
\<close>

record LegalSource =
  url :: string
  title :: string
  source_content :: string
  source_type :: string
  jurisdiction :: string
  authority_level :: string
  last_crawled :: nat
  content_hash :: string
  source_metadata :: metadata_dict

text \<open>The two components of \<open>urlparse(url)\<close> the crawler reads.\<close>

record url_parts =
  netloc :: string
  path :: string

text \<open>What \<open>session.get(url)\<close> answers: the status, and the body \<open>response.text()\<close> reads.\<close>

record http_response =
  status :: int
  body :: "exn + string"

text \<open>
  The libraries and the network the crawler calls, as parameters of the model:
  \<^item> \<open>urlparse\<close> and \<open>urljoin\<close> of \<open>urllib.parse\<close> (\<open>urlparse\<close> raises \<open>ValueError\<close> on a
    URL it rejects);
  \<^item> of BeautifulSoup: the text \<open>get_text()\<close> gives once \<open>clean_content\<close> has removed the
    script, style, navigation and boilerplate elements; the text of the \<open>title\<close> element
    if there is one; whether \<open>find(tag)\<close> finds an element; the number of \<open>a\<close> elements;
    the \<open>last-modified\<close> meta element; the \<open>href\<close> values of the \<open>a\<close> elements that have
    one;
  \<^item> \<open>hashlib.md5(...).hexdigest()\<close> and the clock;
  \<^item> the HTTP session and the headless browser, either of which may raise.
  The per-domain rate limiter of \<open>crawl_url\<close> only delays a fetch and is left out.
\<close>

record crawler_env =
  urlparse :: "string \<Rightarrow> exn + url_parts"
  urljoin :: "string \<Rightarrow> string \<Rightarrow> exn + string"
  soup_text :: "string \<Rightarrow> exn + string"
  soup_title :: "string \<Rightarrow> string option"
  soup_find :: "string \<Rightarrow> string \<Rightarrow> bool"
  soup_count_a :: "string \<Rightarrow> nat"
  soup_last_modified :: "string \<Rightarrow> meta_value"
  soup_hrefs :: "string \<Rightarrow> string list"
  md5_hexdigest :: "string \<Rightarrow> string"
  now :: nat
  http_get :: "string \<Rightarrow> exn + http_response"
  render_page :: "string \<Rightarrow> exn + string"

text \<open>
  The table \<open>legal_domains\<close>, in the order of the dictionary. Each entry \<open>s\<close> stands for
  the pattern \<open>.*s$\<close> with the dots of \<open>s\<close> escaped.
\<close>

definition legal_domains :: "(string \<times> string list) list" where
  "legal_domains =
     [(''government'', [''.gov'', ''.ca.gov'', ''.state.us'', ''.courts.gov'', ''.ftb.ca.gov'',
                       ''.sos.ca.gov'']),
      (''court'', [''.courts.gov'', ''.court.gov'', ''.uscourts.gov'', ''.ca.courts.gov'']),
      (''legal_portal'', [''.justia.com'', ''.findlaw.com'', ''.law.cornell.edu'', ''.nolo.com''])]"

definition legal_keywords :: "string list" where
  "legal_keywords =
     [''incorporation'', ''llc'', ''corporation'', ''partnership'', ''business license'',
      ''filing'', ''registration'', ''compliance'', ''regulation'', ''statute'',
      ''court'', ''litigation'', ''lawsuit'', ''contract'', ''agreement'',
      ''tax'', ''irs'', ''ftb'', ''franchise tax'', ''employment law'',
      ''intellectual property'', ''patent'', ''trademark'', ''copyright'']"

text \<open>
  \<open>re.match(r'.*s$', domain)\<close>: \<open>.*\<close> matches no newline, and \<open>$\<close> matches at the end
  of the string and before a newline that ends it.
\<close>

definition ends_line :: "string \<Rightarrow> string \<Rightarrow> bool" where
  "ends_line s d \<longleftrightarrow>
     suffix s d \<and> CHR 0x0A \<notin> set (take (length d - length s) d)"

definition re_match_suffix :: "string \<Rightarrow> string \<Rightarrow> bool" where
  "re_match_suffix s d \<longleftrightarrow>
     ends_line s d \<or> (d \<noteq> [] \<and> last d = CHR 0x0A \<and> ends_line s (butlast d))"

fun first_source_type :: "(string \<times> string list) list \<Rightarrow> string \<Rightarrow> string option" where
  "first_source_type [] domain = None"
| "first_source_type ((kind, patterns) # rest) domain =
     (if list_ex (\<lambda>p. re_match_suffix p domain) patterns then Some kind
      else first_source_type rest domain)"

definition is_legal_domain :: "crawler_env \<Rightarrow> string \<Rightarrow> exn + string option" where
  "is_legal_domain env u =
     (case urlparse env u of
        Inl e \<Rightarrow> Inl e
      | Inr parts \<Rightarrow> Inr (first_source_type legal_domains (lower (netloc parts))))"

text \<open>\<open>s.title()\<close>: a cased character is upper case after an uncased one, lower case after
  a cased one.\<close>

fun title_from :: "bool \<Rightarrow> string \<Rightarrow> string" where
  "title_from previous_is_cased [] = []"
| "title_from previous_is_cased (c # cs) =
     (if is_lower c then (if previous_is_cased then c else upper_char c) # title_from True cs
      else if is_upper c then (if previous_is_cased then lower_char c else c) # title_from True cs
      else c # title_from False cs)"

definition str_title :: "string \<Rightarrow> string" where
  "str_title s = title_from False s"

text \<open>\<open>extract_jurisdiction\<close>; \<open>domain.split('.')[0]\<close> is the domain up to its first dot.\<close>

definition jurisdiction_of :: "string \<Rightarrow> string \<Rightarrow> string" where
  "jurisdiction_of domain page_text =
     (if str_in ''.ca.gov'' domain then ''California, USA''
      else if str_in ''.state.us'' domain
        then str_title (takeWhile (\<lambda>c. c \<noteq> CHR ''.'') domain) @ '', USA''
      else if str_in ''.gov'' domain then ''Federal, USA''
      else let content_lower = lower page_text
           in if str_in ''california'' content_lower then ''California, USA''
              else if str_in ''new york'' content_lower then ''New York, USA''
              else if str_in ''texas'' content_lower then ''Texas, USA''
              else ''Unknown'')"

definition extract_jurisdiction :: "crawler_env \<Rightarrow> string \<Rightarrow> string \<Rightarrow> exn + string" where
  "extract_jurisdiction env u page_text =
     (case urlparse env u of
        Inl e \<Rightarrow> Inl e
      | Inr parts \<Rightarrow> Inr (jurisdiction_of (lower (netloc parts)) page_text))"

definition determine_authority_level :: "string \<Rightarrow> string \<Rightarrow> string" where
  "determine_authority_level u kind =
     (if kind = ''government'' then ''high''
      else if kind = ''court'' then ''high''
      else if kind = ''legal_portal'' then ''medium''
      else ''low'')"

text \<open>
  \<open>clean_content\<close>: the whitespace clean-up of the text BeautifulSoup extracts.
  \<open>splitlines\<close> breaks at the ASCII line boundaries, \<open>\r\n\<close> counting once, and gives no
  empty last line; \<open>split("  ")\<close> breaks at every pair of spaces, from the left.
\<close>

definition is_linebreak :: "char \<Rightarrow> bool" where
  "is_linebreak c \<longleftrightarrow>
     c \<in> set [CHR 0x0A, CHR 0x0D, CHR 0x0B, CHR 0x0C, CHR 0x1C, CHR 0x1D, CHR 0x1E]"

function splitlines :: "string \<Rightarrow> string list" where
  "splitlines s =
     (if s = [] then []
      else let line = takeWhile (\<lambda>c. \<not> is_linebreak c) s;
               rest = dropWhile (\<lambda>c. \<not> is_linebreak c) s
           in case rest of
                [] \<Rightarrow> [line]
              | c # r \<Rightarrow>
                  line # splitlines (if c = CHR 0x0D \<and> r \<noteq> [] \<and> hd r = CHR 0x0A then tl r else r))"
  by pat_completeness auto
termination
proof (relation "measure length")
  show "wf (measure length)" by simp
next
  fix s line rest :: string and c r
  assume "rest = dropWhile (\<lambda>c. \<not> is_linebreak c) s" and "rest = c # r"
  then have "length (c # r) \<le> length s"
    by (metis length_dropWhile_le)
  then have "length r < length s" by simp
  moreover have "length (tl r) \<le> length r" by simp
  ultimately show "((if c = CHR 0x0D \<and> r \<noteq> [] \<and> hd r = CHR 0x0A then tl r else r), s)
      \<in> measure length"
    by auto
qed

fun split_two_spaces :: "string \<Rightarrow> string \<Rightarrow> string list" where
  "split_two_spaces piece [] = [rev piece]"
| "split_two_spaces piece [c] = [rev (c # piece)]"
| "split_two_spaces piece (c # d # cs) =
     (if c = CHR '' '' \<and> d = CHR '' '' then rev piece # split_two_spaces [] cs
      else split_two_spaces (c # piece) (d # cs))"

definition clean_whitespace :: "string \<Rightarrow> string" where
  "clean_whitespace text =
     (let lines = map strip (splitlines text);
          chunks = concat (map (\<lambda>line. map strip (split_two_spaces [] line)) lines)
      in join_sp (filter (\<lambda>chunk. chunk \<noteq> []) chunks))"

definition clean_content :: "crawler_env \<Rightarrow> string \<Rightarrow> exn + string" where
  "clean_content env html =
     (case soup_text env html of
        Inl e \<Rightarrow> Inl e
      | Inr text \<Rightarrow> Inr (clean_whitespace text))"

text \<open>\<open>is_legal_content\<close>: the number of keywords of the list that occur in the lower-cased
  content.\<close>

definition keyword_matches :: "string \<Rightarrow> nat" where
  "keyword_matches page_text =
     length (filter (\<lambda>keyword. str_in keyword (lower page_text)) legal_keywords)"

definition is_legal_content :: "string \<Rightarrow> bool" where
  "is_legal_content page_text \<longleftrightarrow> keyword_matches page_text \<ge> 3"

text \<open>
  \<open>process_html\<close>. Its body is one \<open>try\<close> block whose handler returns \<open>None\<close>: a
  raising step, in the order of the code, ends in \<open>None\<close>.
\<close>

definition page_title :: "crawler_env \<Rightarrow> string \<Rightarrow> string \<Rightarrow> exn + string" where
  "page_title env u html =
     (case soup_title env html of
        Some t \<Rightarrow> Inr (strip t)
      | None \<Rightarrow> (case urlparse env u of Inl e \<Rightarrow> Inl e | Inr parts \<Rightarrow> Inr (path parts)))"

definition page_metadata :: "crawler_env \<Rightarrow> string \<Rightarrow> string \<Rightarrow> metadata_dict" where
  "page_metadata env html page_text =
     [(''word_count'', MInt (int (length (split_ws page_text)))),
      (''has_forms'', MBool (soup_find env html ''form'')),
      (''has_tables'', MBool (soup_find env html ''table'')),
      (''has_links'', MInt (int (soup_count_a env html))),
      (''last_modified'', soup_last_modified env html)]"

definition process_html :: "crawler_env \<Rightarrow> string \<Rightarrow> string \<Rightarrow> LegalSource option" where
  "process_html env u html =
     (case clean_content env html of
        Inl e \<Rightarrow> None
      | Inr page_text \<Rightarrow>
         (if \<not> is_legal_content page_text then None
          else
           (case page_title env u html of
              Inl e \<Rightarrow> None
            | Inr title_text \<Rightarrow>
               (case is_legal_domain env u of
                  Inl e \<Rightarrow> None
                | Inr found \<Rightarrow>
                   (let kind = (case found of Some t \<Rightarrow> t | None \<Rightarrow> ''other'');
                        level = determine_authority_level u kind
                    in (case extract_jurisdiction env u page_text of
                          Inl e \<Rightarrow> None
                        | Inr where_from \<Rightarrow>
                            Some \<lparr>url = u, title = title_text, source_content = page_text,
                                  source_type = kind, jurisdiction = where_from,
                                  authority_level = level, last_crawled = now env,
                                  content_hash = md5_hexdigest env page_text,
                                  source_metadata = page_metadata env html page_text\<rparr>))))))"

text \<open>The two fetch strategies and \<open>crawl_url\<close>; every handler returns \<open>None\<close>.\<close>

definition crawl_with_aiohttp :: "crawler_env \<Rightarrow> string \<Rightarrow> LegalSource option" where
  "crawl_with_aiohttp env u =
     (case http_get env u of
        Inl e \<Rightarrow> None
      | Inr response \<Rightarrow>
         (if status response \<noteq> 200 then None
          else (case body response of
                  Inl e \<Rightarrow> None
                | Inr html \<Rightarrow> process_html env u html)))"

definition crawl_with_playwright :: "crawler_env \<Rightarrow> string \<Rightarrow> LegalSource option" where
  "crawl_with_playwright env u =
     (case render_page env u of
        Inl e \<Rightarrow> None
      | Inr html \<Rightarrow> process_html env u html)"

definition crawl_url :: "crawler_env \<Rightarrow> string \<Rightarrow> bool \<Rightarrow> LegalSource option" where
  "crawl_url env u use_playwright =
     (case urlparse env u of
        Inl e \<Rightarrow> None
      | Inr parts \<Rightarrow>
          if use_playwright then crawl_with_playwright env u else crawl_with_aiohttp env u)"

text \<open>
  \<open>extract_links_from_content\<close>: the joined links that belong to a legal domain. It has
  no handler: an exception of \<open>urljoin\<close> or \<open>urlparse\<close> leaves the function.
\<close>

fun legal_links :: "crawler_env \<Rightarrow> string \<Rightarrow> string list \<Rightarrow> exn + string list" where
  "legal_links env base_url [] = Inr []"
| "legal_links env base_url (href # hrefs) =
     (case urljoin env base_url href of
        Inl e \<Rightarrow> Inl e
      | Inr full_url \<Rightarrow>
         (case is_legal_domain env full_url of
            Inl e \<Rightarrow> Inl e
          | Inr found \<Rightarrow>
             (case legal_links env base_url hrefs of
                Inl e \<Rightarrow> Inl e
              | Inr links \<Rightarrow> Inr (if found \<noteq> None then full_url # links else links))))"

definition extract_links_from_content :: "crawler_env \<Rightarrow> string \<Rightarrow> string \<Rightarrow> exn + string list" where
  "extract_links_from_content env page_text base_url =
     legal_links env base_url (soup_hrefs env page_text)"

subsection \<open>discover\_legal\_sources\<close>

text \<open>
  The variables of \<open>discover_legal_sources\<close> (\<open>discovered_sources\<close>, \<open>urls_to_crawl\<close>,
  \<open>crawled_count\<close>) together with the attribute \<open>self.crawled_urls\<close> of the crawler,
  which the function reads and updates.
\<close>

record crawl_run =
  discovered_sources :: "LegalSource list"
  urls_to_crawl :: "string list"
  crawled_count :: nat
  crawled_urls :: "string set"

definition max_urls :: nat where
  "max_urls = 100"

text \<open>The loop \<open>for new_url in new_urls\<close>.\<close>

fun enqueue_new_urls :: "string list \<Rightarrow> crawl_run \<Rightarrow> crawl_run" where
  "enqueue_new_urls [] run = run"
| "enqueue_new_urls (new_url # new_urls) run =
     enqueue_new_urls new_urls
       (if new_url \<notin> crawled_urls run \<and> length (urls_to_crawl run) < 50
        then run\<lparr>urls_to_crawl := urls_to_crawl run @ [new_url],
                 crawled_urls := insert new_url (crawled_urls run)\<rparr>
        else run)"

text \<open>
  The body of \<open>for result in results\<close>. A result that is not a \<open>LegalSource\<close> is
  skipped. \<open>extract_links_from_content\<close> is called outside any handler, so its exception
  leaves \<open>discover_legal_sources\<close>.
\<close>

definition process_result :: "crawler_env \<Rightarrow> LegalSource option \<Rightarrow> crawl_run \<Rightarrow> exn + crawl_run" where
  "process_result env result run =
     (case result of
        None \<Rightarrow> Inr run
      | Some src \<Rightarrow>
         (let run1 = run\<lparr>discovered_sources := discovered_sources run @ [src],
                          crawled_count := crawled_count run + 1\<rparr>
          in if crawled_count run1 < max_urls
             then (case extract_links_from_content env (source_content src) (url src) of
                     Inl e \<Rightarrow> Inl e
                   | Inr new_urls \<Rightarrow> Inr (enqueue_new_urls new_urls run1))
             else Inr run1))"

fun process_results :: "crawler_env \<Rightarrow> LegalSource option list \<Rightarrow> crawl_run \<Rightarrow> exn + crawl_run" where
  "process_results env [] run = Inr run"
| "process_results env (result # results) run =
     (case process_result env result run of
        Inl e \<Rightarrow> Inl e
      | Inr run1 \<Rightarrow> process_results env results run1)"

text \<open>
  One batch: the first ten URLs leave the queue, \<open>asyncio.gather\<close> collects the result of
  \<open>crawl_url\<close> for each of them in the order of the batch, and the results are processed.
\<close>

definition process_batch :: "crawler_env \<Rightarrow> crawl_run \<Rightarrow> exn + crawl_run" where
  "process_batch env run =
     (let current_batch = take 10 (urls_to_crawl run);
          run1 = run\<lparr>urls_to_crawl := drop 10 (urls_to_crawl run)\<rparr>;
          results = map (\<lambda>u. crawl_url env u False) current_batch
      in process_results env results run1)"

lemma enqueue_new_urls_count:
  "crawled_count (enqueue_new_urls new_urls run) = crawled_count run"
  by (induction new_urls arbitrary: run) auto

lemma process_result_progress:
  "process_result env result run = Inr run' \<Longrightarrow>
   crawled_count run < crawled_count run' \<or> run' = run"
  by (auto simp: process_result_def Let_def enqueue_new_urls_count
      split: option.splits if_splits sum.splits)

lemma process_results_progress:
  "process_results env results run = Inr run' \<Longrightarrow>
   crawled_count run < crawled_count run' \<or> run' = run"
proof (induction results arbitrary: run)
  case Nil
  then show ?case by simp
next
  case (Cons r rs)
  from Cons.prems obtain run1 where
    one: "process_result env r run = Inr run1" and rest: "process_results env rs run1 = Inr run'"
    by (auto split: sum.splits)
  from process_result_progress [OF one] Cons.IH [OF rest]
  show ?case by auto
qed

lemma process_batch_progress:
  assumes "process_batch env run = Inr run'" and "urls_to_crawl run \<noteq> []"
  shows "crawled_count run < crawled_count run'
    \<or> (crawled_count run' = crawled_count run
        \<and> length (urls_to_crawl run') < length (urls_to_crawl run))"
proof -
  let ?run1 = "run\<lparr>urls_to_crawl := drop 10 (urls_to_crawl run)\<rparr>"
  from assms(1) have "process_results env
      (map (\<lambda>u. crawl_url env u False) (take 10 (urls_to_crawl run))) ?run1 = Inr run'"
    by (simp add: process_batch_def Let_def)
  from process_results_progress [OF this]
  have "crawled_count run < crawled_count run' \<or> run' = ?run1" by simp
  then show ?thesis
    using assms(2) by auto
qed

text \<open>The loop \<open>while urls_to_crawl and crawled_count < max_urls\<close>.\<close>

function discover_loop :: "crawler_env \<Rightarrow> crawl_run \<Rightarrow> exn + crawl_run" where
  "discover_loop env run =
     (if urls_to_crawl run \<noteq> [] \<and> crawled_count run < max_urls
      then (case process_batch env run of
              Inl e \<Rightarrow> Inl e
            | Inr run' \<Rightarrow> discover_loop env run')
      else Inr run)"
  by pat_completeness auto
termination
proof (relation "measures [\<lambda>(env, run). max_urls - crawled_count run,
                           \<lambda>(env, run). length (urls_to_crawl run)]")
  show "wf (measures [\<lambda>(env, run). max_urls - crawled_count run,
                      \<lambda>(env, run). length (urls_to_crawl run)])"
    by simp
next
  fix env :: crawler_env and run run' :: crawl_run
  assume c: "urls_to_crawl run \<noteq> [] \<and> crawled_count run < max_urls"
    and b: "process_batch env run = Inr run'"
  from process_batch_progress [OF b] c
  show "((env, run'), (env, run)) \<in>
      measures [\<lambda>(env, run). max_urls - crawled_count run,
                \<lambda>(env, run). length (urls_to_crawl run)]"
    by auto
qed

declare discover_loop.simps [simp del]

text \<open>
  \<open>discover_legal_sources\<close>, from the seed URLs and the crawler's \<open>crawled_urls\<close>: the
  sources it returns and the crawler's \<open>crawled_urls\<close> afterwards, or the exception that
  leaves it. The parameter \<open>max_depth\<close> is not used by the code.
\<close>

definition discover_legal_sources ::
  "crawler_env \<Rightarrow> string set \<Rightarrow> string list \<Rightarrow> exn + LegalSource list \<times> string set" where
  "discover_legal_sources env visited seed_urls =
     (case discover_loop env \<lparr>discovered_sources = [], urls_to_crawl = seed_urls,
                               crawled_count = 0, crawled_urls = visited\<rparr> of
        Inl e \<Rightarrow> Inl e
      | Inr run \<Rightarrow> Inr (discovered_sources run, crawled_urls run))"

subsection \<open>A small web, to run the crawler on\<close>

text \<open>
  \<open>urlparse\<close> on a plain URL (no control character, no semicolon, no bracketed host): the
  scheme up to the first colon, the netloc between \<open>//\<close> and the first of \<open>/\<close>, \<open>?\<close> and
  \<open>#\<close>, the path up to \<open>?\<close> or \<open>#\<close>, and the \<open>ValueError\<close> for a netloc with one square
  bracket and not the other.
\<close>

definition is_scheme_char :: "char \<Rightarrow> bool" where
  "is_scheme_char c \<longleftrightarrow> is_lower c \<or> is_upper c \<or> c \<in> set ''0123456789+-.''"

definition urlparse_plain :: "string \<Rightarrow> exn + url_parts" where
  "urlparse_plain u =
     (let i = length (takeWhile (\<lambda>c. c \<noteq> CHR '':'') u);
          has_scheme = (0 < i \<and> i < length u \<and> (is_lower (hd u) \<or> is_upper (hd u))
                        \<and> list_all is_scheme_char (take i u));
          rest = (if has_scheme then drop (i + 1) u else u)
      in if take 2 rest = ''//''
         then (let loc = takeWhile (\<lambda>c. c \<notin> set ''/?#'') (drop 2 rest);
                   after = dropWhile (\<lambda>c. c \<notin> set ''/?#'') (drop 2 rest)
               in if (CHR ''['' \<in> set loc \<and> CHR '']'' \<notin> set loc)
                     \<or> (CHR '']'' \<in> set loc \<and> CHR ''['' \<notin> set loc)
                  then Inl (Exception ''Invalid IPv6 URL'')
                  else Inr \<lparr>netloc = loc, path = takeWhile (\<lambda>c. c \<notin> set ''?#'') after\<rparr>)
         else Inr \<lparr>netloc = [], path = takeWhile (\<lambda>c. c \<notin> set ''?#'') rest\<rparr>)"

text \<open>
  A web of plain-text pages: \<open>site\<close> gives the response of each URL that answers (any
  other URL refuses the connection), and \<open>links\<close> gives the absolute links found in a
  page text. Pages have no markup, so the extracted text is the page itself.
\<close>

definition example_env ::
  "(string \<times> http_response) list \<Rightarrow> (string \<times> string list) list \<Rightarrow> crawler_env" where
  "example_env site links =
     \<lparr>urlparse = urlparse_plain,
      urljoin = (\<lambda>base href. Inr href),
      soup_text = (\<lambda>html. Inr html),
      soup_title = (\<lambda>html. None),
      soup_find = (\<lambda>html tag. False),
      soup_count_a = (\<lambda>html. 0),
      soup_last_modified = (\<lambda>html. MNone),
      soup_hrefs = (\<lambda>page_text. case map_of links page_text of Some l \<Rightarrow> l | None \<Rightarrow> []),
      md5_hexdigest = (\<lambda>s. ''d41d8cd98f00b204e9800998ecf8427e''),
      now = 0,
      http_get = (\<lambda>u. case map_of site u of
                          Some response \<Rightarrow> Inr response
                        | None \<Rightarrow> Inl (Exception ''ClientConnectorError'')),
      render_page = (\<lambda>u. Inl (Exception ''TimeoutError''))\<rparr>"

definition legal_page :: http_response where
  "legal_page = \<lparr>status = 200, body = Inr ''llc tax court''\<rparr>"

text \<open>
  109 seed URLs on a web without links: the first one refuses the connection, each of
  the other 108 answers with a page of legal content.
\<close>

definition seed_url :: "nat \<Rightarrow> string" where
  "seed_url i = ''https://s'' @ str_nat i @ ''.gov/''"

definition many_seeds :: "string list" where
  "many_seeds = ''https://down.gov/'' # map seed_url [1..<109]"

definition many_env :: crawler_env where
  "many_env =
     (example_env [] [])
       \<lparr>http_get := (\<lambda>u. if u = ''https://down.gov/''
                            then Inl (Exception ''ClientConnectorError'')
                            else Inr legal_page)\<rparr>"

text \<open>
  A seed whose page links to itself. The page shows its link as text, which
  \<open>get_text\<close> decodes; \<open>extract_links_from_content\<close> parses that text and finds the link.
\<close>

definition self_link_text :: string where
  "self_link_text = ''llc tax court <a href=https://a.gov/>home</a>''"

definition self_link_env :: crawler_env where
  "self_link_env =
     (example_env
        [(''https://a.gov/'',
          \<lparr>status = 200, body = Inr ''llc tax court &lt;a href=https://a.gov/&gt;home&lt;/a&gt;''\<rparr>)]
        [(self_link_text, [''https://a.gov/''])])
       \<lparr>soup_text := (\<lambda>html. Inr self_link_text)\<rparr>"

text \<open>
  Three seeds: one that refuses the connection, one that answers 503 and one that
  answers with a page of legal content.
\<close>

definition failing_seeds :: "string list" where
  "failing_seeds = [''https://down.gov/'', ''https://err.gov/'', ''https://ok.gov/'']"

definition failing_env :: crawler_env where
  "failing_env =
     example_env [(''https://err.gov/'', \<lparr>status = 503, body = Inr ''Service Unavailable''\<rparr>),
                  (''https://ok.gov/'', legal_page)] []"

section \<open>Properties of the chunker\<close>

lemma chunk_loop_indices:
  "chunk_loop cfg md5 text meta ss chunks cur idx = (chunks', cur', idx') \<Longrightarrow>
   map chunk_index chunks = map Some (map (\<lambda>k. i0 + int k) [0..<length chunks]) \<Longrightarrow>
   idx = i0 + int (length chunks) \<Longrightarrow>
   map chunk_index chunks' = map Some (map (\<lambda>k. i0 + int k) [0..<length chunks'])
   \<and> idx' = i0 + int (length chunks')"
proof (induction ss arbitrary: chunks cur idx)
  case Nil
  then show ?case by auto
next
  case (Cons s ss)
  show ?case
  proof (cases "int (length cur) + int (length s) > chunk_size cfg \<and> cur \<noteq> []")
    case True
    with Cons.prems(1) have run:
      "chunk_loop cfg md5 text meta ss (chunks @ [make_chunk md5 text meta cur idx])
         (get_overlap_text cur (overlap cfg) @ '' '' @ s) (idx + 1) = (chunks', cur', idx')"
      by simp
    show ?thesis
    proof (rule Cons.IH [OF run])
      show "map chunk_index (chunks @ [make_chunk md5 text meta cur idx]) =
            map Some (map (\<lambda>k. i0 + int k) [0..<length (chunks @ [make_chunk md5 text meta cur idx])])"
        using Cons.prems(2,3) by (simp add: make_chunk_def)
      show "idx + 1 = i0 + int (length (chunks @ [make_chunk md5 text meta cur idx]))"
        using Cons.prems(3) by simp
    qed
  next
    case False
    with Cons.prems(1) have run:
      "chunk_loop cfg md5 text meta ss chunks
         (if cur \<noteq> [] then cur @ '' '' @ s else s) idx = (chunks', cur', idx')"
      by auto
    show ?thesis
      by (rule Cons.IH [OF run Cons.prems(2) Cons.prems(3)])
  qed
qed

lemma chunk_loop_ids:
  "chunk_loop cfg md5 text meta ss chunks cur idx = (chunks', cur', idx') \<Longrightarrow>
   map chunk_id chunks = map (\<lambda>k. generate_chunk_id md5 text (i0 + int k)) [0..<length chunks] \<Longrightarrow>
   idx = i0 + int (length chunks) \<Longrightarrow>
   map chunk_id chunks' = map (\<lambda>k. generate_chunk_id md5 text (i0 + int k)) [0..<length chunks']"
proof (induction ss arbitrary: chunks cur idx)
  case Nil
  then show ?case by auto
next
  case (Cons s ss)
  show ?case
  proof (cases "int (length cur) + int (length s) > chunk_size cfg \<and> cur \<noteq> []")
    case True
    with Cons.prems(1) have run:
      "chunk_loop cfg md5 text meta ss (chunks @ [make_chunk md5 text meta cur idx])
         (get_overlap_text cur (overlap cfg) @ '' '' @ s) (idx + 1) = (chunks', cur', idx')"
      by simp
    show ?thesis
    proof (rule Cons.IH [OF run])
      show "map chunk_id (chunks @ [make_chunk md5 text meta cur idx]) =
            map (\<lambda>k. generate_chunk_id md5 text (i0 + int k))
              [0..<length (chunks @ [make_chunk md5 text meta cur idx])]"
        using Cons.prems(2,3) by (simp add: make_chunk_def)
      show "idx + 1 = i0 + int (length (chunks @ [make_chunk md5 text meta cur idx]))"
        using Cons.prems(3) by simp
    qed
  next
    case False
    with Cons.prems(1) have run:
      "chunk_loop cfg md5 text meta ss chunks
         (if cur \<noteq> [] then cur @ '' '' @ s else s) idx = (chunks', cur', idx')"
      by auto
    show ?thesis
      by (rule Cons.IH [OF run Cons.prems(2) Cons.prems(3)])
  qed
qed

lemma chunk_loop_meta:
  "map content csa = map content csb \<Longrightarrow>
   map chunk_id csa = map chunk_id csb \<Longrightarrow>
   (case chunk_loop cfg h doc ma ss csa cur idx of (c1, cur1, i1) \<Rightarrow>
    case chunk_loop cfg h doc mb ss csb cur idx of (c2, cur2, i2) \<Rightarrow>
      map content c1 = map content c2 \<and> map chunk_id c1 = map chunk_id c2
      \<and> cur1 = cur2 \<and> i1 = i2)"
proof (induction ss arbitrary: csa csb cur idx)
  case Nil
  then show ?case by simp
next
  case (Cons s ss)
  show ?case
  proof (cases "int (length cur) + int (length s) > chunk_size cfg \<and> cur \<noteq> []")
    case True
    have "map content (csa @ [make_chunk h doc ma cur idx]) =
          map content (csb @ [make_chunk h doc mb cur idx])"
      using Cons.prems(1) by (simp add: make_chunk_def)
    moreover have "map chunk_id (csa @ [make_chunk h doc ma cur idx]) =
          map chunk_id (csb @ [make_chunk h doc mb cur idx])"
      using Cons.prems(2) by (simp add: make_chunk_def)
    ultimately show ?thesis
      using True Cons.IH by simp
  next
    case False
    then show ?thesis
      using Cons.IH [OF Cons.prems] by auto
  qed
qed

lemma chunk_text_indices:
  "map chunk_index (chunk_text cfg md5 raw meta) =
   map (\<lambda>k. Some (int k)) [0..<length (chunk_text cfg md5 raw meta)]"
proof -
  obtain chunks cur idx where run:
    "chunk_loop cfg md5 (clean_text raw) meta (split_into_sentences (clean_text raw)) [] [] 0
       = (chunks, cur, idx)"
    by (metis prod_cases3)
  from chunk_loop_indices [OF run, of 0]
  have a: "map chunk_index chunks = map Some (map (\<lambda>k. 0 + int k) [0..<length chunks])"
    and b: "idx = 0 + int (length chunks)"
    by simp_all
  show ?thesis
    using a b run by (simp add: chunk_text_def make_chunk_def)
qed

lemma chunk_text_ids:
  "map chunk_id (chunk_text cfg md5 raw meta) =
   map (\<lambda>k. generate_chunk_id md5 (clean_text raw) (int k))
     [0..<length (chunk_text cfg md5 raw meta)]"
proof -
  obtain chunks cur idx where run:
    "chunk_loop cfg md5 (clean_text raw) meta (split_into_sentences (clean_text raw)) [] [] 0
       = (chunks, cur, idx)"
    by (metis prod_cases3)
  from chunk_loop_indices [OF run, of 0]
  have b: "idx = 0 + int (length chunks)"
    by simp
  from chunk_loop_ids [OF run, of 0]
  have a: "map chunk_id chunks =
     map (\<lambda>k. generate_chunk_id md5 (clean_text raw) (0 + int k)) [0..<length chunks]"
    by simp
  show ?thesis
    using a b run by (simp add: chunk_text_def make_chunk_def)
qed

lemma chunk_text_meta:
  "map content (chunk_text cfg md5 raw meta1) = map content (chunk_text cfg md5 raw meta2)
   \<and> map chunk_id (chunk_text cfg md5 raw meta1) = map chunk_id (chunk_text cfg md5 raw meta2)"
  using chunk_loop_meta [where csa = "[]" and csb = "[]" and cfg = cfg
      and h = md5 and doc = "clean_text raw" and ma = meta1 and mb = meta2
      and ss = "split_into_sentences (clean_text raw)" and cur = "[]" and idx = 0]
  by (auto simp: chunk_text_def make_chunk_def split: prod.splits)

lemma set_collapse_ws: "set (collapse_ws s) \<subseteq> insert CHR '' '' (set s)"
proof (induction s rule: collapse_ws.induct)
  case 1
  then show ?case by simp
next
  case (2 c cs)
  show ?case
  proof (cases "is_space c")
    case True
    have "set (dropWhile is_space cs) \<subseteq> set cs"
      by (auto dest: set_dropWhileD)
    with 2(1) [OF True] True show ?thesis by auto
  next
    case False
    with 2(2) show ?thesis by auto
  qed
qed

lemma set_strip: "set (strip s) \<subseteq> set s"
  by (auto simp: strip_def dest!: set_dropWhileD)

lemma strip_all_space:
  assumes "\<forall>c\<in>set s. is_space c"
  shows "strip s = []"
proof -
  from assms have "\<forall>c\<in>set (dropWhile is_space s). is_space c"
    by (auto dest: set_dropWhileD)
  then show ?thesis by (simp add: strip_def)
qed

lemma re_split_stops_pieces:
  "p \<in> set (re_split_stops s) \<Longrightarrow> set p \<subseteq> set s \<and> (\<forall>c\<in>set p. \<not> is_stop c)"
proof (induction s arbitrary: p rule: re_split_stops.induct)
  case (1 s)
  let ?piece = "takeWhile (\<lambda>c. \<not> is_stop c) s"
  let ?rest = "dropWhile (\<lambda>c. \<not> is_stop c) s"
  have piece: "set ?piece \<subseteq> set s \<and> (\<forall>c\<in>set ?piece. \<not> is_stop c)"
    by (auto dest: set_takeWhileD)
  have eq: "re_split_stops s =
      (if ?rest = [] then [?piece] else ?piece # re_split_stops (dropWhile is_stop ?rest))"
    by (subst re_split_stops.simps) (simp only: Let_def)
  show ?case
  proof (cases "?rest = []")
    case True
    have "re_split_stops s = [?piece]"
      by (rule trans [OF eq if_P [OF True]])
    with "1.prems" have "p = ?piece" by simp
    with piece show ?thesis by simp
  next
    case False
    have "re_split_stops s = ?piece # re_split_stops (dropWhile is_stop ?rest)"
      by (rule trans [OF eq if_not_P [OF False]])
    with "1.prems" have "p = ?piece \<or> p \<in> set (re_split_stops (dropWhile is_stop ?rest))"
      by simp
    then show ?thesis
    proof
      assume "p = ?piece"
      with piece show ?thesis by simp
    next
      assume "p \<in> set (re_split_stops (dropWhile is_stop ?rest))"
      from "1.IH" [OF refl refl False this]
      have "set p \<subseteq> set (dropWhile is_stop ?rest)" and ns: "\<forall>c\<in>set p. \<not> is_stop c"
        by simp_all
      moreover have "set (dropWhile is_stop ?rest) \<subseteq> set s"
        by (auto dest!: set_dropWhileD)
      ultimately show ?thesis by blast
    qed
  qed
qed

lemma no_sentences_chunk_text:
  "split_into_sentences (clean_text raw) = [] \<Longrightarrow> chunk_text cfg md5 raw meta = []"
  by (simp add: chunk_text_def strip_def)

lemma blank_text_no_sentences:
  assumes "\<forall>c\<in>set raw. is_space c \<or> is_stop c"
  shows "split_into_sentences (clean_text raw) = []"
proof -
  have sp: "is_space CHR '' ''" by (simp add: is_space_def)
  have "set (clean_text raw) \<subseteq> insert CHR '' '' (set raw)"
    using set_strip [of "filter keep_char (collapse_ws raw)"] set_collapse_ws [of raw]
    by (auto simp: clean_text_def)
  with assms sp have cl: "\<forall>c\<in>set (clean_text raw). is_space c \<or> is_stop c"
    by auto
  have "strip p = []" if "p \<in> set (re_split_stops (clean_text raw))" for p
  proof -
    from re_split_stops_pieces [OF that] cl have "\<forall>c\<in>set p. is_space c" by blast
    then show ?thesis by (rule strip_all_space)
  qed
  then show ?thesis
    by (auto simp: split_into_sentences_def filter_empty_conv)
qed

section \<open>Properties of the retrieval\<close>

lemma enumerate_ranks:
  "map rank (map (\<lambda>(i, m). \<lparr>chunk = f m, similarity_score = g m, rank = int i + 1\<rparr>)
     (enumerate 0 ms)) = map (\<lambda>i. int i + 1) [0..<length ms]"
  by (rule nth_equalityI) (simp_all add: nth_enumerate_eq)

lemma search_ranks:
  "map rank (search svc query top_k filter_dict) =
   map (\<lambda>i. int i + 1) [0..<length (search svc query top_k filter_dict)]"
proof (cases "generate_embedding svc query = []")
  case True
  then show ?thesis by (simp add: search_def)
next
  case False
  show ?thesis
  proof (cases "index_query svc (generate_embedding svc query) top_k filter_dict")
    case (Inl e)
    with False show ?thesis by (simp add: search_def)
  next
    case (Inr matches)
    with False have s: "search svc query top_k filter_dict =
      map (\<lambda>(i, m). \<lparr>chunk = chunk_of_match m, similarity_score = match_score m,
                       rank = int i + 1\<rparr>) (enumerate 0 matches)"
      by (simp add: search_def)
    show ?thesis
      unfolding s using enumerate_ranks [of chunk_of_match match_score matches] by simp
  qed
qed

lemma search_ranks_increasing:
  "sorted_wrt (\<lambda>x y. rank x < rank y) (search svc query top_k filter_dict)"
proof -
  have "sorted_wrt (<) (map (\<lambda>i. int i + 1) [0..<length (search svc query top_k filter_dict)])"
    by (simp add: sorted_wrt_iff_nth_less)
  then have "sorted_wrt (<) (map rank (search svc query top_k filter_dict))"
    by (simp only: search_ranks [symmetric])
  then show ?thesis by (simp add: sorted_wrt_map)
qed

lemma example_search:
  "map (\<lambda>r. (chunk_id (chunk r), similarity_score r, rank r))
     (search example_services ''llc filing'' 5 []) =
   [(''chunk_a_0'', 0.9, 1), (''chunk_a_1'', 0.5, 2), (''chunk_b_0'', 0.7, 3)]"
  by (simp add: search_def generate_embedding_def example_services_def example_matches_def
      chunk_of_match_def enumerate_eq_zip upt_rec)

lemma example_retrieve:
  "map (\<lambda>r. (chunk_id (chunk r), similarity_score r, rank r))
     (retrieve_relevant_chunks example_services ''llc filing'' 5 None None) =
   [(''chunk_a_0'', 0.9, 1), (''chunk_b_0'', 0.7, 3)]"
  by (simp add: retrieve_relevant_chunks_def build_filter_def min_score_def
      search_def generate_embedding_def example_services_def example_matches_def
      chunk_of_match_def enumerate_eq_zip upt_rec)

section \<open>Properties of the crawler\<close>

lemma process_html_Some_iff:
  "(\<exists>src. process_html env u html = Some src) \<longleftrightarrow>
   (\<exists>page_text parts. clean_content env html = Inr page_text
      \<and> is_legal_content page_text \<and> urlparse env u = Inr parts)"
  by (auto simp: process_html_def page_title_def is_legal_domain_def extract_jurisdiction_def
      Let_def split: sum.splits option.splits)

lemma keyword_matches_legal_page: "keyword_matches ''llc tax court'' = 3"
  by code_simp

lemma clean_whitespace_legal_page: "clean_whitespace ''llc tax court'' = ''llc tax court''"
  by code_simp

lemma urlparse_plain_no_bracket:
  assumes "CHR ''['' \<notin> set u" and "CHR '']'' \<notin> set u"
  shows "\<exists>parts. urlparse_plain u = Inr parts"
proof -
  have "CHR ''['' \<notin> set (takeWhile P (drop n (drop m u)))"
    and "CHR '']'' \<notin> set (takeWhile P (drop n (drop m u)))"
    and "CHR ''['' \<notin> set (takeWhile P (drop n u))"
    and "CHR '']'' \<notin> set (takeWhile P (drop n u))" for P n m
    using assms by (auto dest!: set_takeWhileD in_set_dropD)
  then show ?thesis
    by (simp add: urlparse_plain_def Let_def)
qed

lemma set_str_nat: "set (str_nat n) \<subseteq> set ''0123456789''"
proof (induction n rule: str_nat.induct)
  case (1 n)
  have d: "digit_char k \<in> set ''0123456789''" for k
    unfolding digit_char_def by (rule nth_mem) simp
  show ?case
  proof (cases "n < 10")
    case True
    then show ?thesis using d [of n] by (subst str_nat.simps) simp
  next
    case False
    with 1 have "set (str_nat (n div 10)) \<subseteq> set ''0123456789''" by simp
    with False d [of "n mod 10"] show ?thesis
      by (subst str_nat.simps) auto
  qed
qed

lemma urlparse_seed_url: "\<exists>parts. urlparse_plain (seed_url i) = Inr parts"
proof (rule urlparse_plain_no_bracket)
  show "CHR ''['' \<notin> set (seed_url i)"
    using set_str_nat [of i] by (auto simp: seed_url_def)
  show "CHR '']'' \<notin> set (seed_url i)"
    using set_str_nat [of i] by (auto simp: seed_url_def)
qed

lemma crawl_seed_url: "crawl_url many_env (seed_url i) False \<noteq> None"
proof -
  obtain parts where p: "urlparse many_env (seed_url i) = Inr parts"
    using urlparse_seed_url [of i] by (auto simp: many_env_def example_env_def)
  have g: "http_get many_env (seed_url i) = Inr legal_page"
    by (simp add: many_env_def example_env_def seed_url_def)
  have c: "clean_content many_env ''llc tax court'' = Inr ''llc tax court''"
    by (simp add: clean_content_def many_env_def example_env_def clean_whitespace_legal_page)
  have "\<exists>src. process_html many_env (seed_url i) ''llc tax court'' = Some src"
    unfolding process_html_Some_iff
    using p c by (simp add: is_legal_content_def keyword_matches_legal_page)
  then show ?thesis
    using p g by (auto simp: crawl_url_def crawl_with_aiohttp_def legal_page_def)
qed

lemma crawl_down: "crawl_url many_env ''https://down.gov/'' False = None"
  by (simp add: crawl_url_def crawl_with_aiohttp_def many_env_def example_env_def
      urlparse_plain_def Let_def split: sum.splits)

lemma process_results_no_links:
  assumes "\<And>t. soup_hrefs env t = []"
  shows "process_results env (map f us) run =
    Inr (run\<lparr>discovered_sources := discovered_sources run @ List.map_filter f us,
             crawled_count := crawled_count run + length (List.map_filter f us)\<rparr>)"
proof (induction us arbitrary: run)
  case Nil
  then show ?case by simp
next
  case (Cons u us)
  show ?case
  proof (cases "f u")
    case None
    then show ?thesis
      using Cons.IH [of run] by (simp add: process_result_def)
  next
    case (Some src)
    then show ?thesis
      using Cons.IH by (simp add: process_result_def Let_def extract_links_from_content_def assms)
  qed
qed

lemma batch_step:
  assumes "\<And>t. soup_hrefs env t = []" and "q \<noteq> []" and "c < max_urls"
  shows "discover_loop env \<lparr>discovered_sources = ds, urls_to_crawl = q, crawled_count = c,
            crawled_urls = v\<rparr> =
         discover_loop env \<lparr>discovered_sources =
              ds @ List.map_filter (\<lambda>u. crawl_url env u False) (take 10 q),
            urls_to_crawl = drop 10 q,
            crawled_count = c + length (List.map_filter (\<lambda>u. crawl_url env u False) (take 10 q)),
            crawled_urls = v\<rparr>"
  using assms(2,3)
  by (subst discover_loop.simps)
     (simp add: process_batch_def Let_def process_results_no_links [of env, OF assms(1)])

lemma loop_done:
  "q = [] \<or> max_urls \<le> c \<Longrightarrow>
   discover_loop env \<lparr>discovered_sources = ds, urls_to_crawl = q, crawled_count = c,
            crawled_urls = v\<rparr> =
   Inr \<lparr>discovered_sources = ds, urls_to_crawl = q, crawled_count = c, crawled_urls = v\<rparr>"
  by (subst discover_loop.simps) auto

lemma count_accepted:
  "length (List.map_filter (\<lambda>u. crawl_url many_env u False) (map seed_url is)) = length is"
proof (induction "is")
  case Nil
  then show ?case by simp
next
  case (Cons i "is")
  obtain src where "crawl_url many_env (seed_url i) False = Some src"
    using crawl_seed_url [of i] by auto
  with Cons show ?case by simp
qed

lemma str_in_iff: "str_in sub s \<longleftrightarrow> (\<exists>p q. s = p @ sub @ q)"
proof (induction s)
  case Nil
  then show ?case by auto
next
  case (Cons c cs)
  show ?case
  proof
    assume "str_in sub (c # cs)"
    then consider "prefix sub (c # cs)" | "str_in sub cs" by auto
    then show "\<exists>p q. c # cs = p @ sub @ q"
    proof cases
      case 1
      then obtain q where "c # cs = sub @ q" by (auto simp: prefix_def)
      then have "c # cs = [] @ sub @ q" by simp
      then show ?thesis by blast
    next
      case 2
      with Cons obtain p q where "cs = p @ sub @ q" by auto
      then have "c # cs = (c # p) @ sub @ q" by simp
      then show ?thesis by blast
    qed
  next
    assume "\<exists>p q. c # cs = p @ sub @ q"
    then obtain p q where e: "c # cs = p @ sub @ q" by auto
    show "str_in sub (c # cs)"
    proof (cases p)
      case Nil
      with e have "prefix sub (c # cs)" by (simp add: prefix_def)
      then show ?thesis by simp
    next
      case (Cons a p')
      with e have "cs = p' @ sub @ q" by simp
      with Cons.IH have "str_in sub cs" by blast
      then show ?thesis by simp
    qed
  qed
qed

lemma suffix_str_in: "suffix sub s \<Longrightarrow> str_in sub s"
  unfolding str_in_iff suffix_def by (metis append_Nil2)




lemma enqueue_new_urls_discovered:
  "discovered_sources (enqueue_new_urls new_urls run) = discovered_sources run"
  by (induction new_urls arbitrary: run) auto

lemma enqueue_new_urls_queue:
  "\<exists>added. urls_to_crawl (enqueue_new_urls new_urls run) = urls_to_crawl run @ added"
proof (induction new_urls arbitrary: run)
  case Nil
  then show ?case by simp
next
  case (Cons u us)
  show ?case
  proof (cases "u \<notin> crawled_urls run \<and> length (urls_to_crawl run) < 50")
    case True
    from Cons [of "run\<lparr>urls_to_crawl := urls_to_crawl run @ [u],
                        crawled_urls := insert u (crawled_urls run)\<rparr>"]
    obtain added where "urls_to_crawl (enqueue_new_urls us
        (run\<lparr>urls_to_crawl := urls_to_crawl run @ [u],
              crawled_urls := insert u (crawled_urls run)\<rparr>)) = (urls_to_crawl run @ [u]) @ added"
      by auto
    with True have "urls_to_crawl (enqueue_new_urls (u # us) run) = urls_to_crawl run @ (u # added)"
      by simp
    then show ?thesis by blast
  next
    case False
    with Cons [of run] show ?thesis by auto
  qed
qed

lemma process_result_effect:
  assumes "process_result env r run = Inr run'"
  shows "discovered_sources run' = discovered_sources run @ List.map_filter (\<lambda>x. x) [r]
    \<and> crawled_count run' = crawled_count run + length (List.map_filter (\<lambda>x. x) [r])
    \<and> (\<exists>added. urls_to_crawl run' = urls_to_crawl run @ added)"
proof (cases r)
  case None
  with assms show ?thesis by (simp add: process_result_def)
next
  case (Some src)
  let ?run1 = "run\<lparr>discovered_sources := discovered_sources run @ [src],
                    crawled_count := crawled_count run + 1\<rparr>"
  show ?thesis
  proof (cases "crawled_count ?run1 < max_urls")
    case True
    with assms Some obtain new_urls where
      "run' = enqueue_new_urls new_urls ?run1"
      by (auto simp: process_result_def Let_def split: sum.splits)
    then show ?thesis
      using Some enqueue_new_urls_queue [of new_urls ?run1]
      by (simp add: enqueue_new_urls_discovered enqueue_new_urls_count)
  next
    case False
    with assms Some have "run' = ?run1"
      by (auto simp: process_result_def Let_def)
    then show ?thesis using Some by simp
  qed
qed

lemma map_filter_append:
  "List.map_filter f (xs @ ys) = List.map_filter f xs @ List.map_filter f ys"
  by (simp add: List.map_filter_def)

lemma process_results_effect:
  "process_results env rs run = Inr run' \<Longrightarrow>
   discovered_sources run' = discovered_sources run @ List.map_filter (\<lambda>x. x) rs
   \<and> crawled_count run' = crawled_count run + length (List.map_filter (\<lambda>x. x) rs)
   \<and> (\<exists>added. urls_to_crawl run' = urls_to_crawl run @ added)"
proof (induction rs arbitrary: run)
  case Nil
  then show ?case by simp
next
  case (Cons r rs)
  from Cons.prems obtain run1 where
    one: "process_result env r run = Inr run1" and rest: "process_results env rs run1 = Inr run'"
    by (auto split: sum.splits)
  note a = process_result_effect [OF one] and b = Cons.IH [OF rest]
  have split: "List.map_filter (\<lambda>x. x) (r # rs) =
      List.map_filter (\<lambda>x. x) [r] @ List.map_filter (\<lambda>x. x) rs"
    using map_filter_append [of "\<lambda>x. x" "[r]" rs] by simp
  from a b obtain ad1 ad2 where
    "urls_to_crawl run1 = urls_to_crawl run @ ad1" "urls_to_crawl run' = urls_to_crawl run1 @ ad2"
    by auto
  then have "urls_to_crawl run' = urls_to_crawl run @ (ad1 @ ad2)" by simp
  then have q: "\<exists>added. urls_to_crawl run' = urls_to_crawl run @ added" by blast
  show ?case
    unfolding split using a b q by simp
qed

lemma map_filter_map:
  "List.map_filter (\<lambda>x. x) (map f xs) = List.map_filter f xs"
  by (induction xs) (simp_all split: option.splits)

lemma process_batch_effect:
  assumes "process_batch env run = Inr run'"
  shows "discovered_sources run' = discovered_sources run
           @ List.map_filter (\<lambda>u. crawl_url env u False) (take 10 (urls_to_crawl run))
    \<and> crawled_count run' = crawled_count run
           + length (List.map_filter (\<lambda>u. crawl_url env u False) (take 10 (urls_to_crawl run)))
    \<and> (\<exists>added. urls_to_crawl run' = drop 10 (urls_to_crawl run) @ added)"
proof -
  from assms have "process_results env
      (map (\<lambda>u. crawl_url env u False) (take 10 (urls_to_crawl run)))
      (run\<lparr>urls_to_crawl := drop 10 (urls_to_crawl run)\<rparr>) = Inr run'"
    by (simp add: process_batch_def Let_def)
  from process_results_effect [OF this] show ?thesis
    by (simp add: map_filter_map)
qed

lemma length_map_filter_le: "length (List.map_filter f xs) \<le> length xs"
  by (simp add: List.map_filter_def)

lemma discover_loop_prefix:
  "discover_loop env run = Inr run' \<Longrightarrow>
   prefix (discovered_sources run) (discovered_sources run')"
proof (induction env run rule: discover_loop.induct)
  case (1 env run)
  show ?case
  proof (cases "urls_to_crawl run \<noteq> [] \<and> crawled_count run < max_urls")
    case True
    with "1.prems" obtain run1 where
      b: "process_batch env run = Inr run1" and l: "discover_loop env run1 = Inr run'"
      by (subst (asm) discover_loop.simps) (auto split: sum.splits)
    from process_batch_effect [OF b]
    have "prefix (discovered_sources run) (discovered_sources run1)" by simp
    moreover from "1.IH" [OF True b l]
    have "prefix (discovered_sources run1) (discovered_sources run')" .
    ultimately show ?thesis by (rule prefix_order.trans)
  next
    case False
    with "1.prems" have "run' = run"
      by (subst (asm) discover_loop.simps) auto
    then show ?thesis by simp
  qed
qed

lemma discover_loop_pending:
  "discover_loop env run = Inr run' \<Longrightarrow>
   urls_to_crawl run = pending @ others \<Longrightarrow>
   crawled_count run + length pending \<le> max_urls \<Longrightarrow>
   u \<in> set pending \<Longrightarrow> crawl_url env u False = Some s \<Longrightarrow>
   s \<in> set (discovered_sources run')"
proof (induction env run arbitrary: pending others rule: discover_loop.induct)
  case (1 env run)
  from "1.prems"(4) have ne: "pending \<noteq> []" by auto
  with "1.prems"(2,3) have cond: "urls_to_crawl run \<noteq> [] \<and> crawled_count run < max_urls"
    by (cases pending) auto
  with "1.prems"(1) obtain run1 where
    b: "process_batch env run = Inr run1" and l: "discover_loop env run1 = Inr run'"
    by (subst (asm) discover_loop.simps) (auto split: sum.splits)
  note eff = process_batch_effect [OF b]
  show ?case
  proof (cases "u \<in> set (take 10 pending)")
    case True
    then have "u \<in> set (take 10 (urls_to_crawl run))"
      using "1.prems"(2) by auto
    with "1.prems"(5) have "s \<in> set (List.map_filter (\<lambda>u. crawl_url env u False)
        (take 10 (urls_to_crawl run)))"
      by (force simp: List.map_filter_def)
    with eff have "s \<in> set (discovered_sources run1)" by simp
    with discover_loop_prefix [OF l] show ?thesis
      by (auto simp: prefix_def)
  next
    case False
    with "1.prems"(4) have in_drop: "u \<in> set (drop 10 pending)"
      by (metis Un_iff append_take_drop_id set_append)
    then have long: "10 \<le> length pending"
      by (cases "10 \<le> length pending") auto
    from eff obtain added where
      q: "urls_to_crawl run1 = drop 10 (urls_to_crawl run) @ added" by auto
    from long "1.prems"(2) have q1: "urls_to_crawl run1 = drop 10 pending @ (others @ added)"
      using q by simp
    have "length (List.map_filter (\<lambda>u. crawl_url env u False) (take 10 (urls_to_crawl run))) \<le> 10"
      using length_map_filter_le [of "\<lambda>u. crawl_url env u False" "take 10 (urls_to_crawl run)"]
      by simp
    with eff have "crawled_count run1 \<le> crawled_count run + 10" by simp
    with long "1.prems"(3) have c1: "crawled_count run1 + length (drop 10 pending) \<le> max_urls"
      by simp
    show ?thesis
      by (rule "1.IH" [OF cond b l q1 c1 in_drop "1.prems"(5)])
  qed
qed

lemma process_results_returns:
  assumes "\<And>t b. \<exists>ls. extract_links_from_content env t b = Inr ls"
  shows "\<exists>run'. process_results env rs run = Inr run'"
proof (induction rs arbitrary: run)
  case Nil
  then show ?case by simp
next
  case (Cons r rs)
  have "\<exists>run1. process_result env r run = Inr run1"
  proof (cases r)
    case None
    then show ?thesis by (simp add: process_result_def)
  next
    case (Some src)
    obtain ls where "extract_links_from_content env (source_content src) (url src) = Inr ls"
      using assms by blast
    with Some show ?thesis by (simp add: process_result_def Let_def)
  qed
  then obtain run1 where "process_result env r run = Inr run1" by blast
  with Cons [of run1] show ?case by simp
qed

lemma process_batch_returns:
  assumes "\<And>t b. \<exists>ls. extract_links_from_content env t b = Inr ls"
  shows "\<exists>run'. process_batch env run = Inr run'"
  unfolding process_batch_def Let_def by (rule process_results_returns [OF assms])

lemma discover_loop_returns:
  "(\<And>t b. \<exists>ls. extract_links_from_content env t b = Inr ls) \<Longrightarrow>
   \<exists>run'. discover_loop env run = Inr run'"
proof (induction env run rule: discover_loop.induct)
  case (1 env run)
  show ?case
  proof (cases "urls_to_crawl run \<noteq> [] \<and> crawled_count run < max_urls")
    case True
    obtain run1 where b: "process_batch env run = Inr run1"
      using process_batch_returns [of env run] "1.prems" by blast
    from "1.IH" [OF True b "1.prems"] obtain run' where "discover_loop env run1 = Inr run'"
      by blast
    with True b have "discover_loop env run = Inr run'"
      by (subst discover_loop.simps) simp
    then show ?thesis by blast
  next
    case False
    then show ?thesis by (subst discover_loop.simps) auto
  qed
qed

lemma skip_failed_batch:
  assumes "\<forall>u \<in> set (take 10 (urls_to_crawl run)). crawl_url env u False = None"
    and "urls_to_crawl run \<noteq> []" and "crawled_count run < max_urls"
  shows "discover_loop env run =
         discover_loop env (run\<lparr>urls_to_crawl := drop 10 (urls_to_crawl run)\<rparr>)"
proof -
  have "process_results env (map (\<lambda>u. crawl_url env u False) us) r = Inr r"
    if "\<forall>u \<in> set us. crawl_url env u False = None" for us r
    using that by (induction us) (simp_all add: process_result_def)
  with assms(1) have "process_batch env run =
      Inr (run\<lparr>urls_to_crawl := drop 10 (urls_to_crawl run)\<rparr>)"
    by (simp add: process_batch_def Let_def)
  with assms(2,3) show ?thesis
    by (subst discover_loop.simps) simp
qed

lemma failing_run:
  "map_sum id (\<lambda>r. map url (fst r)) (discover_legal_sources failing_env {} failing_seeds)
     = Inr [''https://ok.gov/'']"
  by code_simp

lemma failing_crawls:
  "http_get failing_env ''https://down.gov/'' = Inl (Exception ''ClientConnectorError'')
   \<and> crawl_url failing_env ''https://down.gov/'' False = None
   \<and> map_sum id status (http_get failing_env ''https://err.gov/'') = Inr 503
   \<and> crawl_url failing_env ''https://err.gov/'' False = None
   \<and> render_page failing_env ''https://ok.gov/'' = Inl (Exception ''TimeoutError'')
   \<and> crawl_url failing_env ''https://ok.gov/'' True = None
   \<and> map_option url (crawl_url failing_env ''https://ok.gov/'' False) = Some ''https://ok.gov/''"
  by code_simp

section \<open>The claims\<close>

subsection \<open>Retrieval\<close>

text \<open>
  C1. Whatever the query, the \<open>top_k\<close> and the optional jurisdiction and document type,
  every result \<open>retrieve_relevant_chunks\<close> returns has a similarity score of at least
  0.70: no result below the floor reaches the caller.
\<close>

theorem retrieve_min_score:
  "\<forall>r \<in> set (retrieve_relevant_chunks svc query top_k juris doc_type).
     similarity_score r \<ge> 0.7"
  by (simp add: retrieve_relevant_chunks_def min_score_def)

theorem retrieve_min_score_witness:
  "list_all (\<lambda>r. similarity_score r \<ge> 0.7)
     (retrieve_relevant_chunks example_services ''llc filing'' 5 None None)
   \<and> map similarity_score
        (retrieve_relevant_chunks example_services ''llc filing'' 5 None None) = [0.9, 0.7]
   \<and> map similarity_score (search example_services ''llc filing'' 5 []) = [0.9, 0.5, 0.7]"
proof -
  have "list_all (\<lambda>r. similarity_score r \<ge> 0.7)
     (retrieve_relevant_chunks example_services ''llc filing'' 5 None None)"
    using retrieve_min_score [of example_services "''llc filing''" 5 None None]
    by (simp add: list_all_iff)
  moreover have "map similarity_score
        (retrieve_relevant_chunks example_services ''llc filing'' 5 None None) = [0.9, 0.7]"
    using arg_cong [OF example_retrieve, of "map (\<lambda>t. fst (snd t))"] by (simp add: comp_def)
  moreover have "map similarity_score (search example_services ''llc filing'' 5 []) = [0.9, 0.5, 0.7]"
    using arg_cong [OF example_search, of "map (\<lambda>t. fst (snd t))"] by (simp add: comp_def)
  ultimately show ?thesis by simp
qed

text \<open>
  C10. The list \<open>retrieve_relevant_chunks\<close> returns is a subsequence of the list
  \<open>search\<close> returns for the same query and filter, in the same order and with every
  surviving result unchanged, its rank included: the cutoff removes results and never
  reorders or re-ranks them. The ranks of the returned list are strictly increasing;
  they need not be contiguous.
\<close>

theorem retrieve_subseq_of_search:
  "subseq (retrieve_relevant_chunks svc query top_k juris doc_type)
     (search svc query top_k (build_filter juris doc_type))
   \<and> sorted_wrt (<)
       (map rank (retrieve_relevant_chunks svc query top_k juris doc_type))"
proof
  show "subseq (retrieve_relevant_chunks svc query top_k juris doc_type)
     (search svc query top_k (build_filter juris doc_type))"
    by (simp add: retrieve_relevant_chunks_def)
next
  have "sorted_wrt (\<lambda>x y. rank x < rank y)
          (filter (\<lambda>r. similarity_score r \<ge> min_score)
             (search svc query top_k (build_filter juris doc_type)))"
    by (rule sorted_wrt_filter) (rule search_ranks_increasing)
  then show "sorted_wrt (<)
       (map rank (retrieve_relevant_chunks svc query top_k juris doc_type))"
    by (simp add: retrieve_relevant_chunks_def sorted_wrt_map)
qed

theorem retrieve_subseq_of_search_witness:
  "subseq (retrieve_relevant_chunks example_services ''llc filing'' 5 None None)
     (search example_services ''llc filing'' 5 [])
   \<and> map rank (search example_services ''llc filing'' 5 []) = [1, 2, 3]
   \<and> map rank (retrieve_relevant_chunks example_services ''llc filing'' 5 None None) = [1, 3]"
proof -
  have "subseq (retrieve_relevant_chunks example_services ''llc filing'' 5 None None)
     (search example_services ''llc filing'' 5 [])"
    using retrieve_subseq_of_search [of example_services "''llc filing''" 5 None None]
    by (simp add: build_filter_def)
  moreover have "map rank (search example_services ''llc filing'' 5 []) = [1, 2, 3]"
    using arg_cong [OF example_search, of "map (\<lambda>t. snd (snd t))"] by (simp add: comp_def)
  moreover have
    "map rank (retrieve_relevant_chunks example_services ''llc filing'' 5 None None) = [1, 3]"
    using arg_cong [OF example_retrieve, of "map (\<lambda>t. snd (snd t))"] by (simp add: comp_def)
  ultimately show ?thesis by simp
qed

subsection \<open>Chunker\<close>

text \<open>
  C3. For a fixed configuration, \<open>chunk_text\<close> is a function of the input text alone:
  two inputs with the same cleaned text (the same input text in particular) give the same
  chunk contents and the same chunk ids, whatever metadata accompanies them. In every
  result the \<open>chunk_index\<close> values are 0, 1, 2, ... in this order, and the id of the
  chunk at position \<open>k\<close> is \<open>generate_chunk_id\<close> of the cleaned text and \<open>k\<close>.
\<close>

theorem chunk_text_deterministic:
  "(clean_text raw = clean_text raw' \<longrightarrow>
      map content (chunk_text cfg md5 raw meta) = map content (chunk_text cfg md5 raw' meta')
      \<and> map chunk_id (chunk_text cfg md5 raw meta) = map chunk_id (chunk_text cfg md5 raw' meta')
      \<and> map chunk_index (chunk_text cfg md5 raw meta)
          = map chunk_index (chunk_text cfg md5 raw' meta'))
   \<and> map chunk_index (chunk_text cfg md5 raw meta)
       = map (\<lambda>k. Some (int k)) [0..<length (chunk_text cfg md5 raw meta)]
   \<and> map chunk_id (chunk_text cfg md5 raw meta)
       = map (\<lambda>k. generate_chunk_id md5 (clean_text raw) (int k))
           [0..<length (chunk_text cfg md5 raw meta)]"
proof (intro conjI impI)
  assume same: "clean_text raw = clean_text raw'"
  then have eq: "chunk_text cfg md5 raw' meta' = chunk_text cfg md5 raw meta'"
    by (simp add: chunk_text_def)
  show c: "map content (chunk_text cfg md5 raw meta) = map content (chunk_text cfg md5 raw' meta')"
    unfolding eq using chunk_text_meta [of cfg md5 raw meta meta'] by simp
  show "map chunk_id (chunk_text cfg md5 raw meta) = map chunk_id (chunk_text cfg md5 raw' meta')"
    unfolding eq using chunk_text_meta [of cfg md5 raw meta meta'] by simp
  have "length (chunk_text cfg md5 raw meta) = length (chunk_text cfg md5 raw' meta')"
    using arg_cong [OF c, of length] by simp
  then show "map chunk_index (chunk_text cfg md5 raw meta)
          = map chunk_index (chunk_text cfg md5 raw' meta')"
    by (simp add: chunk_text_indices)
next
  show "map chunk_index (chunk_text cfg md5 raw meta)
       = map (\<lambda>k. Some (int k)) [0..<length (chunk_text cfg md5 raw meta)]"
    by (rule chunk_text_indices)
next
  show "map chunk_id (chunk_text cfg md5 raw meta)
       = map (\<lambda>k. generate_chunk_id md5 (clean_text raw) (int k))
           [0..<length (chunk_text cfg md5 raw meta)]"
    by (rule chunk_text_ids)
qed

theorem chunk_text_deterministic_witness:
  "clean_text ''Tax  law. LLC filing!'' = clean_text ''Tax law. LLC filing!''
   \<and> map content (chunk_text \<lparr>chunk_size = 10, overlap = 1\<rparr> (\<lambda>s. s) ''Tax  law. LLC filing!'' [])
       = [''Tax law'', ''law LLC filing'']
   \<and> map content (chunk_text \<lparr>chunk_size = 10, overlap = 1\<rparr> (\<lambda>s. s) ''Tax law. LLC filing!''
         [(''jurisdiction'', MStr ''Texas, USA'')])
       = [''Tax law'', ''law LLC filing'']
   \<and> map chunk_id (chunk_text \<lparr>chunk_size = 10, overlap = 1\<rparr> (\<lambda>s. s) ''Tax  law. LLC filing!'' [])
       = [''chunk_Tax law._0'', ''chunk_Tax law._1'']
   \<and> map chunk_index (chunk_text \<lparr>chunk_size = 10, overlap = 1\<rparr> (\<lambda>s. s) ''Tax  law. LLC filing!'' [])
       = [Some 0, Some 1]"
proof -
  have cl: "clean_text ''Tax  law. LLC filing!'' = clean_text ''Tax law. LLC filing!''"
    by code_simp
  have c: "map content
       (chunk_text \<lparr>chunk_size = 10, overlap = 1\<rparr> (\<lambda>s. s) ''Tax  law. LLC filing!'' [])
       = [''Tax law'', ''law LLC filing'']"
    by code_simp
  note t = chunk_text_deterministic [of "''Tax  law. LLC filing!''" "''Tax law. LLC filing!''"
      "\<lparr>chunk_size = 10, overlap = 1\<rparr>" "\<lambda>s. s" "[]" "[(''jurisdiction'', MStr ''Texas, USA'')]"]
  have len: "length (chunk_text \<lparr>chunk_size = 10, overlap = 1\<rparr> (\<lambda>s. s)
               ''Tax  law. LLC filing!'' []) = 2"
    using arg_cong [OF c, of length] by simp
  have cl2: "take 8 (clean_text ''Tax  law. LLC filing!'') = ''Tax law.''"
    by code_simp
  have ids: "map chunk_id
       (chunk_text \<lparr>chunk_size = 10, overlap = 1\<rparr> (\<lambda>s. s) ''Tax  law. LLC filing!'' [])
       = [''chunk_Tax law._0'', ''chunk_Tax law._1'']"
    using t len cl2
    by (simp add: generate_chunk_id_def str_int_def str_nat.simps digit_char_def upt_rec)
  have idx: "map chunk_index
       (chunk_text \<lparr>chunk_size = 10, overlap = 1\<rparr> (\<lambda>s. s) ''Tax  law. LLC filing!'' [])
       = [Some 0, Some 1]"
    using t len by (simp add: upt_rec)
  have c': "map content (chunk_text \<lparr>chunk_size = 10, overlap = 1\<rparr> (\<lambda>s. s) ''Tax law. LLC filing!''
         [(''jurisdiction'', MStr ''Texas, USA'')])
       = [''Tax law'', ''law LLC filing'']"
    using t cl c by simp
  show ?thesis
    using cl c c' ids idx by simp
qed

text \<open>
  C9. When the cleaned text has no sentence unit with non-whitespace content,
  \<open>chunk_text\<close> returns no chunk. That is so for every text made of whitespace and the
  characters \<open>.\<close>, \<open>!\<close> and \<open>?\<close> only, the empty text included.
\<close>

theorem chunk_text_no_sentence:
  "(split_into_sentences (clean_text raw) = [] \<longrightarrow> chunk_text cfg md5 raw meta = [])
   \<and> ((\<forall>c\<in>set raw. is_space c \<or> is_stop c) \<longrightarrow> chunk_text cfg md5 raw meta = [])"
  using no_sentences_chunk_text [of raw cfg md5 meta] blank_text_no_sentences [of raw]
  by blast

theorem chunk_text_no_sentence_witness:
  "split_into_sentences (clean_text '' . !? '') = []
   \<and> list_all (\<lambda>c. is_space c \<or> is_stop c) '' . !? ''
   \<and> chunk_text default_chunker (\<lambda>s. s) '' . !? '' [] = []
   \<and> chunk_text default_chunker (\<lambda>s. s) [] [] = []"
proof -
  have a: "split_into_sentences (clean_text '' . !? '') = []"
    by code_simp
  have b: "list_all (\<lambda>c. is_space c \<or> is_stop c) '' . !? ''"
    by code_simp
  have c: "\<forall>c\<in>set []. is_space c \<or> is_stop c"
    by simp
  show ?thesis
    using a b c chunk_text_no_sentence [of "'' . !? ''" default_chunker "\<lambda>s. s" "[]"]
      chunk_text_no_sentence [of "[]" default_chunker "\<lambda>s. s" "[]"]
    by simp
qed

text \<open>
  C4. A chunk made of more than one sentence unit can be longer than \<open>chunk_size\<close>. With
  the default configuration (512 characters, 50 words), two units of 300 characters each
  give a second chunk of 601 characters, the first chunk carried over whole as overlap;
  and two units of 312 and 200 characters are joined into one chunk of 513 characters,
  the separating space not being counted.
\<close>

theorem chunk_text_exceeds_chunk_size:
  "split_into_sentences
     (clean_text (replicate 300 CHR ''a'' @ ''. '' @ replicate 300 CHR ''b'' @ ''.''))
     = [replicate 300 CHR ''a'', replicate 300 CHR ''b'']
   \<and> map content (chunk_text default_chunker md5
        (replicate 300 CHR ''a'' @ ''. '' @ replicate 300 CHR ''b'' @ ''.'') meta)
     = [replicate 300 CHR ''a'', replicate 300 CHR ''a'' @ '' '' @ replicate 300 CHR ''b'']
   \<and> map (\<lambda>c. int (length (content c))) (chunk_text default_chunker md5
        (replicate 300 CHR ''a'' @ ''. '' @ replicate 300 CHR ''b'' @ ''.'') meta)
     = [300, 601]
   \<and> split_into_sentences
       (clean_text (replicate 312 CHR ''a'' @ ''. '' @ replicate 200 CHR ''b'' @ ''.''))
     = [replicate 312 CHR ''a'', replicate 200 CHR ''b'']
   \<and> map (\<lambda>c. int (length (content c))) (chunk_text default_chunker md5
        (replicate 312 CHR ''a'' @ ''. '' @ replicate 200 CHR ''b'' @ ''.'') meta)
     = [513]
   \<and> chunk_size default_chunker = 512"
  by code_simp

subsection \<open>Crawler\<close>



text \<open>
  C7 (as amended). \<open>extract_jurisdiction\<close> raises where \<open>urlparse\<close> rejects the URL.
  Otherwise it follows this chain on the lower-cased netloc, each rule tested by
  containment anywhere in the netloc: a netloc that contains \<open>.ca.gov\<close> (one that ends
  with it in particular) gives "California, USA"; else one that contains \<open>.state.us\<close>
  gives the title-cased first label of the netloc and ", USA"; else one that contains
  \<open>.gov\<close> gives "Federal, USA". Only if none of the three applies is the lower-cased
  content searched, for "california", "new york" and "texas" in this order; only if that
  fails too is the answer "Unknown".
\<close>

theorem extract_jurisdiction_priority:
  "(urlparse env u = Inl e \<longrightarrow> extract_jurisdiction env u page_text = Inl e)
   \<and> (urlparse env u = Inr parts \<longrightarrow>
        (let domain = lower (netloc parts); content_lower = lower page_text
         in (str_in ''.ca.gov'' domain \<longrightarrow>
               extract_jurisdiction env u page_text = Inr ''California, USA'')
          \<and> (suffix ''.ca.gov'' domain \<longrightarrow>
               extract_jurisdiction env u page_text = Inr ''California, USA'')
          \<and> (\<not> str_in ''.ca.gov'' domain \<and> str_in ''.state.us'' domain \<longrightarrow>
               extract_jurisdiction env u page_text =
                 Inr (str_title (takeWhile (\<lambda>c. c \<noteq> CHR ''.'') domain) @ '', USA''))
          \<and> (\<not> str_in ''.ca.gov'' domain \<and> \<not> str_in ''.state.us'' domain
               \<and> str_in ''.gov'' domain \<longrightarrow>
               extract_jurisdiction env u page_text = Inr ''Federal, USA'')
          \<and> (\<not> str_in ''.ca.gov'' domain \<and> \<not> str_in ''.state.us'' domain
               \<and> \<not> str_in ''.gov'' domain \<longrightarrow>
               extract_jurisdiction env u page_text =
                 Inr (if str_in ''california'' content_lower then ''California, USA''
                      else if str_in ''new york'' content_lower then ''New York, USA''
                      else if str_in ''texas'' content_lower then ''Texas, USA''
                      else ''Unknown''))))"
proof (intro conjI impI)
  assume "urlparse env u = Inl e"
  then show "extract_jurisdiction env u page_text = Inl e"
    by (simp add: extract_jurisdiction_def)
next
  assume p: "urlparse env u = Inr parts"
  have sfx: "str_in ''.ca.gov'' (lower (netloc parts))"
    if "suffix ''.ca.gov'' (lower (netloc parts))"
    using that by (rule suffix_str_in)
  from p sfx show "let domain = lower (netloc parts); content_lower = lower page_text
         in (str_in ''.ca.gov'' domain \<longrightarrow>
               extract_jurisdiction env u page_text = Inr ''California, USA'')
          \<and> (suffix ''.ca.gov'' domain \<longrightarrow>
               extract_jurisdiction env u page_text = Inr ''California, USA'')
          \<and> (\<not> str_in ''.ca.gov'' domain \<and> str_in ''.state.us'' domain \<longrightarrow>
               extract_jurisdiction env u page_text =
                 Inr (str_title (takeWhile (\<lambda>c. c \<noteq> CHR ''.'') domain) @ '', USA''))
          \<and> (\<not> str_in ''.ca.gov'' domain \<and> \<not> str_in ''.state.us'' domain
               \<and> str_in ''.gov'' domain \<longrightarrow>
               extract_jurisdiction env u page_text = Inr ''Federal, USA'')
          \<and> (\<not> str_in ''.ca.gov'' domain \<and> \<not> str_in ''.state.us'' domain
               \<and> \<not> str_in ''.gov'' domain \<longrightarrow>
               extract_jurisdiction env u page_text =
                 Inr (if str_in ''california'' content_lower then ''California, USA''
                      else if str_in ''new york'' content_lower then ''New York, USA''
                      else if str_in ''texas'' content_lower then ''Texas, USA''
                      else ''Unknown''))"
    unfolding Let_def
    by (intro conjI impI) (simp_all add: extract_jurisdiction_def jurisdiction_of_def Let_def)
qed

theorem extract_jurisdiction_priority_witness:
  "urlparse (example_env [] []) ''https://www.IRS.gov/'' = Inr \<lparr>netloc = ''www.IRS.gov'', path = ''/''\<rparr>
   \<and> lower ''www.IRS.gov'' = ''www.irs.gov''
   \<and> \<not> str_in ''.ca.gov'' ''www.irs.gov'' \<and> \<not> str_in ''.state.us'' ''www.irs.gov''
   \<and> str_in ''.gov'' ''www.irs.gov''
   \<and> extract_jurisdiction (example_env [] []) ''https://www.IRS.gov/'' ''california''
       = Inr ''Federal, USA''"
proof -
  have p: "urlparse (example_env [] []) ''https://www.IRS.gov/''
      = Inr \<lparr>netloc = ''www.IRS.gov'', path = ''/''\<rparr>"
    by code_simp
  have l: "lower ''www.IRS.gov'' = ''www.irs.gov''"
    by code_simp
  have a: "\<not> str_in ''.ca.gov'' ''www.irs.gov''" and b: "\<not> str_in ''.state.us'' ''www.irs.gov''"
    and c: "str_in ''.gov'' ''www.irs.gov''"
    by code_simp+
  have "extract_jurisdiction (example_env [] []) ''https://www.IRS.gov/'' ''california''
       = Inr ''Federal, USA''"
    using extract_jurisdiction_priority [of "example_env [] []" "''https://www.IRS.gov/''"
        "Exception ''ValueError''" "''california''" "\<lparr>netloc = ''www.IRS.gov'', path = ''/''\<rparr>"]
      p l a b c
    by (simp add: Let_def)
  with p l a b c show ?thesis by simp
qed

text \<open>
  C7 as stated fails. The netloc \<open>www.gov.uk\<close> ends with none of \<open>.ca.gov\<close>, \<open>.gov\<close> and
  \<open>.us\<close>, and the content names Texas: the answer is "Federal, USA", from the \<open>.gov\<close>
  inside the netloc. The netloc \<open>www.state.tx.us\<close> has the form \<open>state.<code>.us\<close>, and
  no domain rule applies to it.
\<close>

theorem extract_jurisdiction_not_suffix:
  "urlparse (example_env [] []) ''https://www.gov.uk/'' = Inr \<lparr>netloc = ''www.gov.uk'', path = ''/''\<rparr>
   \<and> \<not> suffix ''.ca.gov'' ''www.gov.uk'' \<and> \<not> suffix ''.gov'' ''www.gov.uk''
   \<and> \<not> suffix ''.us'' ''www.gov.uk''
   \<and> str_in ''texas'' (lower ''Texas law'')
   \<and> extract_jurisdiction (example_env [] []) ''https://www.gov.uk/'' ''Texas law''
       = Inr ''Federal, USA''
   \<and> urlparse (example_env [] []) ''https://www.state.tx.us/''
       = Inr \<lparr>netloc = ''www.state.tx.us'', path = ''/''\<rparr>
   \<and> suffix ''.us'' ''www.state.tx.us''
   \<and> extract_jurisdiction (example_env [] []) ''https://www.state.tx.us/'' ''llc''
       = Inr ''Unknown''"
  by code_simp

text \<open>
  C5. The number of sources \<open>discover_legal_sources\<close> returns can exceed \<open>max_urls\<close>: the
  bound is tested between batches only, and a batch of up to ten URLs is processed whole.
  Of 109 seeds the first fails and the other 108 are accepted: after ten batches the
  count is 99, the eleventh batch adds nine, and 108 sources are returned.
\<close>

theorem discover_exceeds_max_urls:
  "length many_seeds = 109 \<and> max_urls = 100
   \<and> map_sum id (\<lambda>r. length (fst r)) (discover_legal_sources many_env {} many_seeds) = Inr 108"
proof -
  have nl: "\<And>t. soup_hrefs many_env t = []"
    by (simp add: many_env_def example_env_def)
  note bs = batch_step [of many_env, OF nl]
  have "map_sum id (\<lambda>r. length (fst r)) (discover_legal_sources many_env {} many_seeds) = Inr 108"
    by (simp add: discover_legal_sources_def many_seeds_def bs loop_done max_urls_def
        crawl_down count_accepted take_map drop_map del: upt_rec_numeral)
  then show ?thesis
    by (simp add: many_seeds_def max_urls_def)
qed

text \<open>
  C6. A seed URL is not marked visited, so a link to it is enqueued again. The seed
  \<open>https://a.gov/\<close> links to itself: after the first batch it is in the queue a second
  time, it is crawled twice, and its source is returned twice.
\<close>

theorem seed_enqueued_twice:
  "map_sum id (\<lambda>run. (urls_to_crawl run, crawled_urls run))
     (process_batch self_link_env
        \<lparr>discovered_sources = [], urls_to_crawl = [''https://a.gov/''], crawled_count = 0,
         crawled_urls = {}\<rparr>)
     = Inr ([''https://a.gov/''], {''https://a.gov/''})
   \<and> map_sum id (\<lambda>r. map url (fst r))
       (discover_legal_sources self_link_env {} [''https://a.gov/''])
     = Inr [''https://a.gov/'', ''https://a.gov/'']"
  by code_simp

text \<open>
  C8. A fetch that fails makes \<open>crawl_url\<close> return \<open>None\<close>, not raise: when the session
  raises (a timeout, a connection error), when the status is not 200 (any status outside
  2xx in particular), when the body cannot be read, and when the browser raises (a render
  timeout). Such a result does not stop the batch or the run: \<open>process_results\<close> skips it
  and goes on with the results that follow; after a batch whose URLs all fail the loop
  goes on with the rest of the queue; and, where link extraction does not raise and there
  are at most \<open>max_urls\<close> seeds, \<open>discover_legal_sources\<close> returns, with the source of
  every seed whose own fetch succeeds among its sources, whatever the other URLs do.
\<close>

theorem fetch_failure_not_fatal:
  "(http_get env u = Inl e \<longrightarrow> crawl_url env u False = None)
   \<and> (http_get env u = Inr response \<and> status response \<noteq> 200 \<longrightarrow>
        crawl_url env u False = None)
   \<and> (http_get env u = Inr response \<and> body response = Inl e \<longrightarrow>
        crawl_url env u False = None)
   \<and> (render_page env u = Inl e \<longrightarrow> crawl_url env u True = None)
   \<and> process_results env (None # results) run = process_results env results run
   \<and> ((\<forall>v \<in> set (take 10 (urls_to_crawl run)). crawl_url env v False = None)
        \<and> urls_to_crawl run \<noteq> [] \<and> crawled_count run < max_urls \<longrightarrow>
        discover_loop env run =
          discover_loop env (run\<lparr>urls_to_crawl := drop 10 (urls_to_crawl run)\<rparr>))
   \<and> ((\<forall>t b. \<exists>ls. extract_links_from_content env t b = Inr ls)
        \<and> length seed_urls \<le> max_urls \<longrightarrow>
        (\<exists>sources visited'.
           discover_legal_sources env visited seed_urls = Inr (sources, visited')
           \<and> (\<forall>v \<in> set seed_urls. \<forall>s. crawl_url env v False = Some s \<longrightarrow> s \<in> set sources)))"
proof (intro conjI impI)
  show "crawl_url env u False = None" if "http_get env u = Inl e"
    using that by (simp add: crawl_url_def crawl_with_aiohttp_def split: sum.splits)
  show "crawl_url env u False = None" if "http_get env u = Inr response \<and> status response \<noteq> 200"
    using that by (simp add: crawl_url_def crawl_with_aiohttp_def split: sum.splits)
  show "crawl_url env u False = None" if "http_get env u = Inr response \<and> body response = Inl e"
    using that by (simp add: crawl_url_def crawl_with_aiohttp_def split: sum.splits)
  show "crawl_url env u True = None" if "render_page env u = Inl e"
    using that by (simp add: crawl_url_def crawl_with_playwright_def split: sum.splits)
  show "process_results env (None # results) run = process_results env results run"
    by (simp add: process_result_def)
  show "discover_loop env run =
          discover_loop env (run\<lparr>urls_to_crawl := drop 10 (urls_to_crawl run)\<rparr>)"
    if "(\<forall>v \<in> set (take 10 (urls_to_crawl run)). crawl_url env v False = None)
        \<and> urls_to_crawl run \<noteq> [] \<and> crawled_count run < max_urls"
    using that skip_failed_batch [of run env] by blast
  show "\<exists>sources visited'.
           discover_legal_sources env visited seed_urls = Inr (sources, visited')
           \<and> (\<forall>v \<in> set seed_urls. \<forall>s. crawl_url env v False = Some s \<longrightarrow> s \<in> set sources)"
    if h: "(\<forall>t b. \<exists>ls. extract_links_from_content env t b = Inr ls)
        \<and> length seed_urls \<le> max_urls"
  proof -
    let ?run0 = "\<lparr>discovered_sources = [], urls_to_crawl = seed_urls, crawled_count = 0,
                  crawled_urls = visited\<rparr>"
    from h obtain run' where l: "discover_loop env ?run0 = Inr run'"
      using discover_loop_returns [of env ?run0] by blast
    have "s \<in> set (discovered_sources run')"
      if "v \<in> set seed_urls" and "crawl_url env v False = Some s" for v s
      using discover_loop_pending [OF l, of seed_urls "[]" v s] h that by simp
    with l show ?thesis
      by (simp add: discover_legal_sources_def)
  qed
qed

theorem fetch_failure_not_fatal_witness:
  "http_get failing_env ''https://down.gov/'' = Inl (Exception ''ClientConnectorError'')
   \<and> crawl_url failing_env ''https://down.gov/'' False = None
   \<and> render_page failing_env ''https://down.gov/'' = Inl (Exception ''TimeoutError'')
   \<and> crawl_url failing_env ''https://down.gov/'' True = None
   \<and> length failing_seeds \<le> max_urls
   \<and> (\<exists>src sources visited'.
         crawl_url failing_env ''https://ok.gov/'' False = Some src
         \<and> discover_legal_sources failing_env {} failing_seeds = Inr (sources, visited')
         \<and> src \<in> set sources)
   \<and> map_sum id (\<lambda>r. map url (fst r)) (discover_legal_sources failing_env {} failing_seeds)
       = Inr [''https://ok.gov/'']"
proof -
  note t1 = fetch_failure_not_fatal [of failing_env "''https://down.gov/''"
      "Exception ''ClientConnectorError''" legal_page "[]"
      "\<lparr>discovered_sources = [], urls_to_crawl = failing_seeds, crawled_count = 0,
        crawled_urls = {}\<rparr>" failing_seeds "{}"]
  note t2 = fetch_failure_not_fatal [of failing_env "''https://down.gov/''"
      "Exception ''TimeoutError''" legal_page "[]"
      "\<lparr>discovered_sources = [], urls_to_crawl = failing_seeds, crawled_count = 0,
        crawled_urls = {}\<rparr>" failing_seeds "{}"]
  have g: "http_get failing_env ''https://down.gov/'' = Inl (Exception ''ClientConnectorError'')"
    and r: "render_page failing_env ''https://down.gov/'' = Inl (Exception ''TimeoutError'')"
    by (simp_all add: failing_env_def example_env_def)
  from t1 g have a: "crawl_url failing_env ''https://down.gov/'' False = None" by blast
  from t2 r have b: "crawl_url failing_env ''https://down.gov/'' True = None" by blast
  have len: "length failing_seeds \<le> max_urls"
    by (simp add: failing_seeds_def max_urls_def)
  have links: "\<forall>t b. \<exists>ls. extract_links_from_content failing_env t b = Inr ls"
    by (simp add: extract_links_from_content_def failing_env_def example_env_def)
  from t1 links len obtain sources visited' where
    run: "discover_legal_sources failing_env {} failing_seeds = Inr (sources, visited')"
    and all: "\<forall>v \<in> set failing_seeds. \<forall>s.
        crawl_url failing_env v False = Some s \<longrightarrow> s \<in> set sources"
    by blast
  obtain src where ok: "crawl_url failing_env ''https://ok.gov/'' False = Some src"
    using failing_crawls by auto
  have "''https://ok.gov/'' \<in> set failing_seeds"
    by (simp add: failing_seeds_def)
  with all ok have "src \<in> set sources" by blast
  with ok run have c: "\<exists>src sources visited'.
         crawl_url failing_env ''https://ok.gov/'' False = Some src
         \<and> discover_legal_sources failing_env {} failing_seeds = Inr (sources, visited')
         \<and> src \<in> set sources"
    by blast
  show ?thesis
    using g a r b len c failing_run by simp
qed

end
